theory Spec2Isabelle
  imports Main "HOL-Library.Word"
begin

section \<open>The handle table of UnlimitedHandleResource.h\<close>

text \<open>
  The class template \<^verbatim>\<open>UnlimitedHandleResource<THandle, TStruct, typeValue, TMutex>\<close>
  owns one vector, \<^verbatim>\<open>m_structures\<close>, of shared pointers to \<^verbatim>\<open>TStruct\<close>. Every
  member function takes the mutex for its whole access to the vector, so each call is
  one atomic step on the vector: the model passes the vector in and returns the new one.
\<close>

subsection \<open>Machine integers and shared pointers\<close>

text \<open>
  A C++ \<^verbatim>\<open>int\<close> is a 32-bit word read as a signed number (\<open>sint\<close>); a
  \<^verbatim>\<open>size_t\<close> that counts slots of the vector is a natural number (it never exceeds
  the vector's size). \<^verbatim>\<open>static_cast<int>\<close> of a \<^verbatim>\<open>size_t\<close> keeps the low 32 bits:
  \<open>word_of_nat\<close>.
\<close>

type_synonym cint = "32 word"

text \<open>
  A \<^verbatim>\<open>std::shared_ptr<T>\<close> is \<open>None\<close> when it is null and \<open>Some r\<close> when it
  points to the object \<open>r\<close>; two pointers are the same reference when they are equal.
\<close>

type_synonym 'r shared_ptr = "'r option"

subsection \<open>The template parameter THandle\<close>

text \<open>
  \<^verbatim>\<open>THandle\<close> is a template parameter; the header only lists what it must provide
  (lines 28 to 32), so its members are parameters of the model:
  \<^item> \<open>kIndexMax\<close>: \<^verbatim>\<open>THandle::kIndexMax\<close>, the maximum index value;
  \<^item> \<open>THandle_ctor\<close>: the constructor \<^verbatim>\<open>THandle(int index, Type type)\<close>;
  \<^item> \<open>GetTypedIndex\<close>: \<^verbatim>\<open>handle.GetTypedIndex(type)\<close>, an \<^verbatim>\<open>int\<close>;
  \<^item> \<open>THandle_of_int\<close>: the conversion from \<^verbatim>\<open>int\<close> that \<^verbatim>\<open>return 0;\<close> uses;
  \<^item> \<open>Type_cast\<close>: \<^verbatim>\<open>static_cast<typename THandle::Type>(typeValue)\<close>.
\<close>

record ('h, 't) THandle_ops =
  kIndexMax :: nat
  THandle_ctor :: "cint \<Rightarrow> 't \<Rightarrow> 'h"
  GetTypedIndex :: "'h \<Rightarrow> 't \<Rightarrow> cint"
  THandle_of_int :: "cint \<Rightarrow> 'h"
  Type_cast :: "cint \<Rightarrow> 't"

text \<open>\<^verbatim>\<open>MakeHandle(size_t i)\<close>, lines 58 to 61.\<close>

definition MakeHandle :: "('h, 't) THandle_ops \<Rightarrow> cint \<Rightarrow> nat \<Rightarrow> 'h" where
  "MakeHandle H typeValue i = THandle_ctor H (word_of_nat i) (Type_cast H typeValue)"

subsection \<open>Allocate, both overloads\<close>

text \<open>
  What an \<^verbatim>\<open>Allocate\<close> call returns, tagged with the return statement that produced
  it: \<open>Return_MakeHandle i h\<close> is \<^verbatim>\<open>return MakeHandle(i);\<close> with the value of \<open>i\<close>
  and the handle \<open>h\<close> made, \<open>Return_0 h\<close> is \<^verbatim>\<open>return 0;\<close> with the handle \<open>h\<close>
  that \<open>0\<close> converts to.
\<close>

datatype 'h alloc_return = Return_MakeHandle nat 'h | Return_0 'h

fun returned :: "'h alloc_return \<Rightarrow> 'h" where
  "returned (Return_MakeHandle i h) = h"
| "returned (Return_0 h) = h"

text \<open>
  The \<^verbatim>\<open>for\<close> loop of the constructing overload (lines 72 to 77), from the current
  value of \<open>i\<close>: \<open>Inl\<close> is the return from inside the loop (the handle and the vector
  after the assignment), \<open>Inr i\<close> is the loop's exit with the final \<open>i\<close>.
  \<open>make_shared args\<close> is the object that
  \<^verbatim>\<open>std::make_shared<TStruct>(std::forward<Args>(args)...)\<close> creates; the pointer to it
  is never null. The theorems hold for every \<open>make_shared\<close>, so also for one that gives
  each construction an object of its own. The construction is taken to succeed: a
  constructor that throws leaves the vector as it was, and is not a case of the model.
\<close>

function Allocate_loop ::
  "('h, 't) THandle_ops \<Rightarrow> cint \<Rightarrow> ('a \<Rightarrow> 'r) \<Rightarrow> 'a \<Rightarrow> 'r shared_ptr list \<Rightarrow> nat
    \<Rightarrow> ('h alloc_return \<times> 'r shared_ptr list) + nat" where
  "Allocate_loop H typeValue make_shared args m_structures i =
     (if i < length m_structures then
        (if m_structures ! i = None then
           Inl (Return_MakeHandle i (MakeHandle H typeValue i),
                m_structures[i := Some (make_shared args)])
         else Allocate_loop H typeValue make_shared args m_structures (i + 1))
      else Inr i)"
  by pat_completeness auto
termination
  by (relation "measure (\<lambda>(H, typeValue, make_shared, args, m_structures, i).
        length m_structures - i)") auto

declare Allocate_loop.simps [simp del]

text \<open>\<^verbatim>\<open>Allocate(Args&&... args)\<close>, lines 66 to 83.\<close>

definition Allocate ::
  "('h, 't) THandle_ops \<Rightarrow> cint \<Rightarrow> ('a \<Rightarrow> 'r) \<Rightarrow> 'a \<Rightarrow> 'r shared_ptr list
    \<Rightarrow> 'h alloc_return \<times> 'r shared_ptr list" where
  "Allocate H typeValue make_shared args m_structures =
     (case Allocate_loop H typeValue make_shared args m_structures 0 of
        Inl r \<Rightarrow> r
      | Inr i \<Rightarrow>
          if i \<ge> kIndexMax H then (Return_0 (THandle_of_int H 0), m_structures)
          else (Return_MakeHandle i (MakeHandle H typeValue i),
                m_structures @ [Some (make_shared args)]))"

text \<open>
  The by-reference overload is declared \<^verbatim>\<open>Allocate(std::shared_ptr<THandle> structure)\<close>
  (lines 48 and 86 to 87): its argument points to a \<^verbatim>\<open>THandle\<close>, of type \<open>'p\<close> here,
  not to a \<^verbatim>\<open>TStruct\<close>. The assignment \<^verbatim>\<open>m_structures[i] = structure\<close> compiles only
  where a \<^verbatim>\<open>THandle*\<close> converts to a \<^verbatim>\<open>TStruct*\<close>; \<open>upcast\<close> is that pointer
  conversion. A null pointer converts to a null pointer.
\<close>

function Allocate_ref_loop ::
  "('h, 't) THandle_ops \<Rightarrow> cint \<Rightarrow> ('p \<Rightarrow> 'r) \<Rightarrow> 'p shared_ptr \<Rightarrow> 'r shared_ptr list \<Rightarrow> nat
    \<Rightarrow> ('h alloc_return \<times> 'r shared_ptr list) + nat" where
  "Allocate_ref_loop H typeValue upcast structure m_structures i =
     (if i < length m_structures then
        (if m_structures ! i = None then
           Inl (Return_MakeHandle i (MakeHandle H typeValue i),
                m_structures[i := map_option upcast structure])
         else Allocate_ref_loop H typeValue upcast structure m_structures (i + 1))
      else Inr i)"
  by pat_completeness auto
termination
  by (relation "measure (\<lambda>(H, typeValue, upcast, structure, m_structures, i).
        length m_structures - i)") auto

declare Allocate_ref_loop.simps [simp del]

text \<open>\<^verbatim>\<open>Allocate(std::shared_ptr<THandle> structure)\<close>, lines 85 to 100.\<close>

definition Allocate_ref ::
  "('h, 't) THandle_ops \<Rightarrow> cint \<Rightarrow> ('p \<Rightarrow> 'r) \<Rightarrow> 'p shared_ptr \<Rightarrow> 'r shared_ptr list
    \<Rightarrow> 'h alloc_return \<times> 'r shared_ptr list" where
  "Allocate_ref H typeValue upcast structure m_structures =
     (case Allocate_ref_loop H typeValue upcast structure m_structures 0 of
        Inl r \<Rightarrow> r
      | Inr i \<Rightarrow>
          if i \<ge> kIndexMax H then (Return_0 (THandle_of_int H 0), m_structures)
          else (Return_MakeHandle i (MakeHandle H typeValue i),
                m_structures @ [map_option upcast structure]))"

subsection \<open>Get, Free and GetAll\<close>

text \<open>
  \<^verbatim>\<open>Get(THandle handle)\<close>, lines 102 to 112. \<open>index\<close> is an \<^verbatim>\<open>int\<close>: the tests are
  signed comparisons, the second one against \<^verbatim>\<open>static_cast<int>(m_structures.size())\<close>.
  \<^verbatim>\<open>m_structures[index]\<close> reads the slot at the value of \<open>index\<close>, which is not
  negative there. The function does not write the vector.
\<close>

definition Get ::
  "('h, 't) THandle_ops \<Rightarrow> cint \<Rightarrow> 'h \<Rightarrow> 'r shared_ptr list \<Rightarrow> 'r shared_ptr" where
  "Get H typeValue handle m_structures =
     (let index = GetTypedIndex H handle (Type_cast H typeValue) in
      if index <s 0 then None
      else if word_of_nat (length m_structures) \<le>s index then None
      else m_structures ! nat (sint index))"

text \<open>\<^verbatim>\<open>Free(THandle handle)\<close>, lines 114 to 123; \<^verbatim>\<open>reset()\<close> makes the slot null.\<close>

definition Free ::
  "('h, 't) THandle_ops \<Rightarrow> cint \<Rightarrow> 'h \<Rightarrow> 'r shared_ptr list \<Rightarrow> 'r shared_ptr list" where
  "Free H typeValue handle m_structures =
     (let index = GetTypedIndex H handle (Type_cast H typeValue) in
      if index <s 0 then m_structures
      else if word_of_nat (length m_structures) \<le>s index then m_structures
      else m_structures[nat (sint index) := None])"

text \<open>
  The loop of \<^verbatim>\<open>GetAll\<close> (lines 131 to 133) from the current \<open>i\<close>, on the caller's
  vector \<open>handles\<close>. \<^verbatim>\<open>push_back\<close> on a \<^verbatim>\<open>SmallVectorImpl<T>\<close> converts the handle to
  the element type \<^verbatim>\<open>T\<close>: \<open>to_T\<close>.
\<close>

function GetAll_loop ::
  "('h, 't) THandle_ops \<Rightarrow> cint \<Rightarrow> ('h \<Rightarrow> 'e) \<Rightarrow> 'r shared_ptr list \<Rightarrow> 'e list \<Rightarrow> nat
    \<Rightarrow> 'e list" where
  "GetAll_loop H typeValue to_T m_structures handles i =
     (if i < length m_structures then
        GetAll_loop H typeValue to_T m_structures
          (if m_structures ! i \<noteq> None then handles @ [to_T (MakeHandle H typeValue i)]
           else handles)
          (i + 1)
      else handles)"
  by pat_completeness auto
termination
  by (relation "measure (\<lambda>(H, typeValue, to_T, m_structures, handles, i).
        length m_structures - i)") auto

declare GetAll_loop.simps [simp del]

text \<open>\<^verbatim>\<open>GetAll(llvm::SmallVectorImpl<T>& handles)\<close>, lines 125 to 134.\<close>

definition GetAll ::
  "('h, 't) THandle_ops \<Rightarrow> cint \<Rightarrow> ('h \<Rightarrow> 'e) \<Rightarrow> 'r shared_ptr list \<Rightarrow> 'e list \<Rightarrow> 'e list" where
  "GetAll H typeValue to_T m_structures handles =
     GetAll_loop H typeValue to_T m_structures handles 0"

subsection \<open>Calls, replies and runs of calls\<close>

text \<open>
  A call of one of the five member functions, with its arguments, and what it gives
  back. \<^verbatim>\<open>Get\<close> and \<^verbatim>\<open>GetAll\<close> do not write \<^verbatim>\<open>m_structures\<close>: their step returns
  the vector as it was. \<^verbatim>\<open>GetAll\<close> is taken at the element type \<^verbatim>\<open>T = THandle\<close> here.
\<close>

datatype ('a, 'p, 'h) call =
  Call_Allocate 'a
| Call_Allocate_ref "'p shared_ptr"
| Call_Get 'h
| Call_Free 'h
| Call_GetAll "'h list"

datatype ('r, 'h) reply =
  Reply_Allocate "'h alloc_return"
| Reply_Get "'r shared_ptr"
| Reply_Free
| Reply_GetAll "'h list"

fun do_call ::
  "('h, 't) THandle_ops \<Rightarrow> cint \<Rightarrow> ('a \<Rightarrow> 'r) \<Rightarrow> ('p \<Rightarrow> 'r) \<Rightarrow> ('a, 'p, 'h) call
    \<Rightarrow> 'r shared_ptr list \<Rightarrow> ('r, 'h) reply \<times> 'r shared_ptr list" where
  "do_call H typeValue make_shared upcast (Call_Allocate args) m =
     (let (r, m') = Allocate H typeValue make_shared args m in (Reply_Allocate r, m'))"
| "do_call H typeValue make_shared upcast (Call_Allocate_ref p) m =
     (let (r, m') = Allocate_ref H typeValue upcast p m in (Reply_Allocate r, m'))"
| "do_call H typeValue make_shared upcast (Call_Get h) m =
     (Reply_Get (Get H typeValue h m), m)"
| "do_call H typeValue make_shared upcast (Call_Free h) m =
     (Reply_Free, Free H typeValue h m)"
| "do_call H typeValue make_shared upcast (Call_GetAll handles) m =
     (Reply_GetAll (GetAll H typeValue (\<lambda>h. h) m handles), m)"

fun run_calls ::
  "('h, 't) THandle_ops \<Rightarrow> cint \<Rightarrow> ('a \<Rightarrow> 'r) \<Rightarrow> ('p \<Rightarrow> 'r) \<Rightarrow> ('a, 'p, 'h) call list
    \<Rightarrow> 'r shared_ptr list \<Rightarrow> ('r, 'h) reply list \<times> 'r shared_ptr list" where
  "run_calls H typeValue make_shared upcast [] m = ([], m)"
| "run_calls H typeValue make_shared upcast (c # cs) m =
     (let (r, m') = do_call H typeValue make_shared upcast c m;
          (rs, m'') = run_calls H typeValue make_shared upcast cs m'
      in (r # rs, m''))"

text \<open>The pointer an \<^verbatim>\<open>Allocate\<close> call stores in the slot it chooses.\<close>

fun installed :: "('a \<Rightarrow> 'r) \<Rightarrow> ('p \<Rightarrow> 'r) \<Rightarrow> ('a, 'p, 'h) call \<Rightarrow> 'r shared_ptr" where
  "installed make_shared upcast (Call_Allocate args) = Some (make_shared args)"
| "installed make_shared upcast (Call_Allocate_ref p) = map_option upcast p"
| "installed make_shared upcast (Call_Get h) = None"
| "installed make_shared upcast (Call_Free h) = None"
| "installed make_shared upcast (Call_GetAll handles) = None"

text \<open>
  A successful \<^verbatim>\<open>Allocate\<close>, as the spec's error handling design has it: the call
  installs a new resource and returns a valid handle. A call of the constructing overload
  is successful when it returns through \<^verbatim>\<open>return MakeHandle(i)\<close> (the pointer that
  \<^verbatim>\<open>make_shared\<close> gives is never null); a call of the by-reference overload is
  successful when it returns through \<^verbatim>\<open>return MakeHandle(i)\<close> and the pointer it was
  given is not null, so that there is a resource to install.
\<close>

fun successful_Allocate :: "('a, 'p, 'h) call \<Rightarrow> ('r, 'h) reply \<Rightarrow> bool" where
  "successful_Allocate (Call_Allocate args) (Reply_Allocate (Return_MakeHandle i h)) = True"
| "successful_Allocate (Call_Allocate_ref p) (Reply_Allocate (Return_MakeHandle i h)) =
     (p \<noteq> None)"
| "successful_Allocate c r = False"

text \<open>The kinds of calls.\<close>

fun is_Allocate :: "('a, 'p, 'h) call \<Rightarrow> bool" where
  "is_Allocate (Call_Allocate args) = True"
| "is_Allocate (Call_Allocate_ref p) = True"
| "is_Allocate c = False"

fun is_Free :: "('a, 'p, 'h) call \<Rightarrow> bool" where
  "is_Free (Call_Free h) = True"
| "is_Free c = False"

text \<open>
  A step of a run with no \<^verbatim>\<open>Free\<close> in which every \<^verbatim>\<open>Allocate\<close> is successful: a
  successful \<^verbatim>\<open>Allocate\<close>, or a \<^verbatim>\<open>Get\<close>, or a \<^verbatim>\<open>GetAll\<close>.
\<close>

fun installs_or_reads :: "('a, 'p, 'h) call \<Rightarrow> ('r, 'h) reply \<Rightarrow> bool" where
  "installs_or_reads (Call_Allocate args) (Reply_Allocate (Return_MakeHandle i h)) = True"
| "installs_or_reads (Call_Allocate_ref p) (Reply_Allocate (Return_MakeHandle i h)) =
     (p \<noteq> None)"
| "installs_or_reads (Call_Get h) r = True"
| "installs_or_reads (Call_GetAll handles) r = True"
| "installs_or_reads c r = False"

text \<open>The handles that the \<^verbatim>\<open>Allocate\<close> calls of a run returned, in order.\<close>

fun allocated_handles :: "('r, 'h) reply list \<Rightarrow> 'h list" where
  "allocated_handles [] = []"
| "allocated_handles (Reply_Allocate r # rs) = returned r # allocated_handles rs"
| "allocated_handles (r # rs) = allocated_handles rs"

text \<open>The slots that the \<^verbatim>\<open>Allocate\<close> calls of a run chose, in order.\<close>

fun allocated_slots :: "('r, 'h) reply list \<Rightarrow> nat list" where
  "allocated_slots [] = []"
| "allocated_slots (Reply_Allocate (Return_MakeHandle i h) # rs) = i # allocated_slots rs"
| "allocated_slots (r # rs) = allocated_slots rs"

text \<open>The reply of an \<^verbatim>\<open>Allocate\<close> that chose slot \<open>i\<close>.\<close>

fun reuses_slot :: "nat \<Rightarrow> ('r, 'h) reply \<Rightarrow> bool" where
  "reuses_slot i (Reply_Allocate (Return_MakeHandle j h)) = (j = i)"
| "reuses_slot i r = False"

text \<open>No \<^verbatim>\<open>Allocate\<close> of the run of \<open>cs\<close> from \<open>m\<close> chooses slot \<open>i\<close>.\<close>

fun no_reuse ::
  "('h, 't) THandle_ops \<Rightarrow> cint \<Rightarrow> ('a \<Rightarrow> 'r) \<Rightarrow> ('p \<Rightarrow> 'r) \<Rightarrow> nat \<Rightarrow> ('a, 'p, 'h) call list
    \<Rightarrow> 'r shared_ptr list \<Rightarrow> bool" where
  "no_reuse H typeValue make_shared upcast i [] m = True"
| "no_reuse H typeValue make_shared upcast i (c # cs) m =
     (let (r, m') = do_call H typeValue make_shared upcast c m
      in \<not> reuses_slot i r \<and> no_reuse H typeValue make_shared upcast i cs m')"

text \<open>
  A \<^verbatim>\<open>Free\<close> of the handle \<open>h\<close>, or of any handle with the same typed index (a handle
  type may encode more than the index and the type).
\<close>

fun frees_handle :: "('h, 't) THandle_ops \<Rightarrow> cint \<Rightarrow> 'h \<Rightarrow> ('a, 'p, 'h) call \<Rightarrow> bool" where
  "frees_handle H typeValue h (Call_Free h') =
     (GetTypedIndex H h' (Type_cast H typeValue) = GetTypedIndex H h (Type_cast H typeValue))"
| "frees_handle H typeValue h c = False"

text \<open>The indices of the occupied slots, in ascending order.\<close>

definition occupied_slots :: "'r shared_ptr list \<Rightarrow> nat list" where
  "occupied_slots m = filter (\<lambda>i. m ! i \<noteq> None) [0..<length m]"

text \<open>The lowest index of an empty slot; the vector's length when no slot is empty.\<close>

definition first_empty :: "'r shared_ptr list \<Rightarrow> nat" where
  "first_empty m = length (takeWhile (\<lambda>x. x \<noteq> None) m)"

subsection \<open>What the table needs of THandle\<close>

text \<open>
  The header's requirements on \<^verbatim>\<open>THandle\<close> (lines 28 to 32) and the spec's handle
  collaborator contract (a constructor from index and type, a decode operation that
  returns the encoded index): \<open>kIndexMax\<close> is a value of \<^verbatim>\<open>int\<close>, and a handle made
  for an index below it and for this table's type decodes, for this type, to that
  index. Theorems that decode a handle the table made assume it.
\<close>

definition handle_contract :: "('h, 't) THandle_ops \<Rightarrow> cint \<Rightarrow> bool" where
  "handle_contract H typeValue \<longleftrightarrow>
     kIndexMax H \<le> 2147483647 \<and>
     (\<forall>i\<in>{0..<kIndexMax H}.
        GetTypedIndex H (MakeHandle H typeValue i) (Type_cast H typeValue) = word_of_nat i)"

text \<open>
  Modelled from the spec: the handle type, whose declaration is not in the header. The
  spec's data model has a handle composed of an index and a type tag, decoded for an
  expected type tag to the index or to a negative sentinel when the tag does not match;
  the invalid handle that \<open>0\<close> converts to has index 0 and the tag 0. \<open>K\<close> is the maximum
  index. The concrete examples below run on it.
\<close>

definition pair_handle :: "nat \<Rightarrow> (cint \<times> cint, cint) THandle_ops" where
  "pair_handle K =
     \<lparr>kIndexMax = K,
      THandle_ctor = (\<lambda>index type. (index, type)),
      GetTypedIndex = (\<lambda>h type. if snd h = type then fst h else - 1),
      THandle_of_int = (\<lambda>v. (v, 0)),
      Type_cast = (\<lambda>v. v)\<rparr>"

section \<open>Auxiliary facts\<close>

subsection \<open>The first empty slot\<close>

lemma first_empty_Nil: "first_empty [] = 0"
  by (simp add: first_empty_def)

lemma first_empty_Cons:
  "first_empty (x # xs) = (if x = None then 0 else Suc (first_empty xs))"
  by (simp add: first_empty_def)

lemma first_empty_le: "first_empty m \<le> length m"
  by (simp add: first_empty_def length_takeWhile_le)

lemma first_empty_None: "first_empty m < length m \<Longrightarrow> m ! first_empty m = None"
proof (induction m)
  case Nil
  then show ?case by simp
next
  case (Cons x xs)
  then show ?case by (cases x) (simp_all add: first_empty_Cons)
qed

lemma first_empty_below: "k < first_empty m \<Longrightarrow> m ! k \<noteq> None"
proof (induction m arbitrary: k)
  case Nil
  then show ?case by (simp add: first_empty_Nil)
next
  case (Cons x xs)
  show ?case
  proof (cases "x = None")
    case True
    with Cons.prems show ?thesis by (simp add: first_empty_Cons)
  next
    case False
    with Cons show ?thesis by (cases k) (simp_all add: first_empty_Cons)
  qed
qed

lemma first_empty_eqI:
  assumes "j < length m" and "m ! j = None" and "\<forall>k<j. m ! k \<noteq> None"
  shows "first_empty m = j"
proof -
  have "\<not> j < first_empty m"
    using first_empty_below [of j m] assms(2) by blast
  moreover have "\<not> first_empty m < j"
  proof
    assume lt: "first_empty m < j"
    with assms(1) have "first_empty m < length m" by simp
    then have "m ! first_empty m = None" by (rule first_empty_None)
    with assms(3) lt show False by blast
  qed
  ultimately show ?thesis by simp
qed

lemma first_empty_full: "None \<notin> set m \<Longrightarrow> first_empty m = length m"
proof (induction m)
  case Nil
  then show ?case by (simp add: first_empty_Nil)
next
  case (Cons x xs)
  then show ?case by (cases x) (simp_all add: first_empty_Cons)
qed

lemma first_empty_length_iff: "first_empty m = length m \<longleftrightarrow> None \<notin> set m"
proof
  assume e: "first_empty m = length m"
  show "None \<notin> set m"
  proof
    assume "None \<in> set m"
    then obtain k where "k < length m" and "m ! k = None"
      by (auto simp: in_set_conv_nth)
    with e first_empty_below [of k m] show False by simp
  qed
qed (rule first_empty_full)

subsection \<open>The two loops of Allocate find the first empty slot\<close>

lemma Allocate_loop_as_ref:
  "Allocate_loop H typeValue make_shared args m i =
   Allocate_ref_loop H typeValue (\<lambda>x. x) (Some (make_shared args)) m i"
proof (induction H typeValue make_shared args m i rule: Allocate_loop.induct)
  case (1 H typeValue make_shared args m i)
  then show ?case
    by (subst Allocate_loop.simps, subst Allocate_ref_loop.simps) simp
qed

lemma Allocate_as_ref:
  "Allocate H typeValue make_shared args m =
   Allocate_ref H typeValue (\<lambda>x. x) (Some (make_shared args)) m"
  by (simp add: Allocate_def Allocate_ref_def Allocate_loop_as_ref split: sum.splits)

lemma Allocate_ref_loop_scan:
  "i \<le> length m \<Longrightarrow>
   Allocate_ref_loop H typeValue upcast p m i =
     (if i + first_empty (drop i m) < length m then
        Inl (Return_MakeHandle (i + first_empty (drop i m))
               (MakeHandle H typeValue (i + first_empty (drop i m))),
             m[i + first_empty (drop i m) := map_option upcast p])
      else Inr (length m))"
proof (induction H typeValue upcast p m i rule: Allocate_ref_loop.induct)
  case (1 H typeValue upcast p m i)
  show ?case
  proof (cases "i < length m")
    case False
    with "1.prems" have "i = length m" by simp
    then show ?thesis
      by (subst Allocate_ref_loop.simps) (simp add: first_empty_Nil)
  next
    case True
    then have d: "drop i m = m ! i # drop (Suc i) m"
      by (simp add: Cons_nth_drop_Suc)
    show ?thesis
    proof (cases "m ! i = None")
      case True
      then have "first_empty (drop i m) = 0"
        by (simp add: d first_empty_Cons)
      with True \<open>i < length m\<close> show ?thesis
        by (subst Allocate_ref_loop.simps) simp
    next
      case False
      then have fe: "first_empty (drop i m) = Suc (first_empty (drop (Suc i) m))"
        by (simp add: d first_empty_Cons)
      from False \<open>i < length m\<close> have "Allocate_ref_loop H typeValue upcast p m (i + 1) =
        (if (i + 1) + first_empty (drop (i + 1) m) < length m then
           Inl (Return_MakeHandle ((i + 1) + first_empty (drop (i + 1) m))
                  (MakeHandle H typeValue ((i + 1) + first_empty (drop (i + 1) m))),
                m[(i + 1) + first_empty (drop (i + 1) m) := map_option upcast p])
         else Inr (length m))"
        by (intro "1.IH") simp_all
      with False \<open>i < length m\<close> show ?thesis
        by (subst Allocate_ref_loop.simps) (simp add: fe)
    qed
  qed
qed

lemma Allocate_ref_scan:
  "Allocate_ref H typeValue upcast p m =
     (if first_empty m < length m then
        (Return_MakeHandle (first_empty m) (MakeHandle H typeValue (first_empty m)),
         m[first_empty m := map_option upcast p])
      else if length m \<ge> kIndexMax H then (Return_0 (THandle_of_int H 0), m)
      else (Return_MakeHandle (length m) (MakeHandle H typeValue (length m)),
            m @ [map_option upcast p]))"
  by (simp add: Allocate_ref_def Allocate_ref_loop_scan)

lemma Allocate_scan:
  "Allocate H typeValue make_shared args m =
     (if first_empty m < length m then
        (Return_MakeHandle (first_empty m) (MakeHandle H typeValue (first_empty m)),
         m[first_empty m := Some (make_shared args)])
      else if length m \<ge> kIndexMax H then (Return_0 (THandle_of_int H 0), m)
      else (Return_MakeHandle (length m) (MakeHandle H typeValue (length m)),
            m @ [Some (make_shared args)]))"
  by (simp add: Allocate_as_ref Allocate_ref_scan)

text \<open>An \<^verbatim>\<open>Allocate\<close> call of either overload, as a step on the vector.\<close>

lemma do_call_Allocate_scan:
  "c = Call_Allocate args \<or> c = Call_Allocate_ref p \<Longrightarrow>
   do_call H typeValue make_shared upcast c m =
     (if first_empty m < length m then
        (Reply_Allocate (Return_MakeHandle (first_empty m) (MakeHandle H typeValue (first_empty m))),
         m[first_empty m := installed make_shared upcast c])
      else if length m \<ge> kIndexMax H then (Reply_Allocate (Return_0 (THandle_of_int H 0)), m)
      else (Reply_Allocate (Return_MakeHandle (length m) (MakeHandle H typeValue (length m))),
            m @ [installed make_shared upcast c]))"
  by (auto simp: Allocate_scan Allocate_ref_scan)

lemma do_call_Return_MakeHandleD:
  assumes "do_call H typeValue make_shared upcast c m = (Reply_Allocate (Return_MakeHandle i h), m')"
  shows "i = first_empty m"
    and "h = MakeHandle H typeValue i"
    and "m' = (if i < length m then m[i := installed make_shared upcast c]
               else m @ [installed make_shared upcast c])"
    and "i < length m \<or> (i = length m \<and> length m < kIndexMax H)"
proof -
  from assms obtain args p where c: "c = Call_Allocate args \<or> c = Call_Allocate_ref p"
    by (cases c) auto
  note s = do_call_Allocate_scan [OF c, of H typeValue make_shared upcast m]
  from assms first_empty_le [of m] show "i = first_empty m"
    unfolding s by (auto split: if_splits)
  from assms show "h = MakeHandle H typeValue i"
    unfolding s by (auto split: if_splits)
  from assms show "m' = (if i < length m then m[i := installed make_shared upcast c]
               else m @ [installed make_shared upcast c])"
    unfolding s by (auto split: if_splits)
  from assms show "i < length m \<or> (i = length m \<and> length m < kIndexMax H)"
    unfolding s by (auto split: if_splits)
qed

lemma do_call_Return_MakeHandle_slot:
  assumes "do_call H typeValue make_shared upcast c m = (Reply_Allocate (Return_MakeHandle i h), m')"
  shows "i < length m'" and "m' ! i = installed make_shared upcast c"
    and "i < length m \<Longrightarrow> m ! i = None" and "length m \<le> length m'"
    and "k < length m \<Longrightarrow> k \<noteq> i \<Longrightarrow> m' ! k = m ! k"
proof -
  note d = do_call_Return_MakeHandleD [OF assms]
  from d(3,4) show "i < length m'" by auto
  from d(3,4) show "m' ! i = installed make_shared upcast c" by auto
  from d(1) show "i < length m \<Longrightarrow> m ! i = None" by (simp add: first_empty_None)
  from d(3) show "length m \<le> length m'" by auto
  from d(3) show "k < length m \<Longrightarrow> k \<noteq> i \<Longrightarrow> m' ! k = m ! k" by (auto simp: nth_append)
qed

lemma do_call_Return_0D:
  assumes "do_call H typeValue make_shared upcast c m = (Reply_Allocate (Return_0 h), m')"
  shows "m' = m"
proof -
  from assms obtain args p where c: "c = Call_Allocate args \<or> c = Call_Allocate_ref p"
    by (cases c) auto
  from assms show ?thesis
    unfolding do_call_Allocate_scan [OF c] by (auto split: if_splits)
qed

subsection \<open>The casts between size_t and int\<close>

lemma sint_cint_of_nat: "n \<le> 2147483647 \<Longrightarrow> sint (word_of_nat n :: cint) = int n"
  by (simp add: signed_of_nat signed_take_bit_int_eq_self)

lemma sint_cint_of_nat_le: "sint (word_of_nat n :: cint) \<le> int n"
  by (simp add: signed_of_nat signed_take_bit_int_less_eq_self_iff)

lemma sint_cint_less: "sint (index :: cint) < 2147483648"
  using sint_lt [of index] by simp

text \<open>Where \<^verbatim>\<open>Get\<close> and \<^verbatim>\<open>Free\<close> reach \<^verbatim>\<open>m_structures[index]\<close>, the slot exists.\<close>

lemma index_in_range:
  assumes "\<not> index <s 0" and "\<not> (word_of_nat n :: cint) \<le>s index"
  shows "nat (sint index) < n"
proof -
  from assms(1) have "0 \<le> sint index" by (simp add: word_sless_alt)
  moreover from assms(2) have "sint index < sint (word_of_nat n :: cint)"
    by (simp add: word_sle_eq)
  ultimately show ?thesis using sint_cint_of_nat_le [of n] by linarith
qed

lemma index_beyond:
  assumes "int n \<le> sint (index :: cint)"
  shows "(word_of_nat n :: cint) \<le>s index"
proof -
  from assms sint_cint_less [of index] have "n \<le> 2147483647" by linarith
  then have "sint (word_of_nat n :: cint) = int n" by (rule sint_cint_of_nat)
  with assms show ?thesis by (simp add: word_sle_eq)
qed

lemma Free_cases:
  "Free H typeValue h m = m \<or> (\<exists>k<length m. Free H typeValue h m = m[k := None])"
  unfolding Free_def Let_def using index_in_range by (auto split: if_splits)

lemma length_Free: "length (Free H typeValue h m) = length m"
  by (simp add: Free_def Let_def)

text \<open>Decoding a handle that the table made.\<close>

lemma decode_MakeHandle:
  assumes "handle_contract H typeValue" and "i < kIndexMax H"
  shows "GetTypedIndex H (MakeHandle H typeValue i) (Type_cast H typeValue) = word_of_nat i"
  using assms by (simp add: handle_contract_def)

lemma slot_index_props:
  assumes "handle_contract H typeValue" and "length m \<le> kIndexMax H" and "i < length m"
  shows "\<not> (word_of_nat i :: cint) <s 0"
    and "\<not> (word_of_nat (length m) :: cint) \<le>s word_of_nat i"
    and "nat (sint (word_of_nat i :: cint)) = i"
proof -
  from assms have "i \<le> 2147483647" and "length m \<le> 2147483647"
    by (simp_all add: handle_contract_def)
  then have "sint (word_of_nat i :: cint) = int i"
    and "sint (word_of_nat (length m) :: cint) = int (length m)"
    by (simp_all add: sint_cint_of_nat)
  with assms(3) show "\<not> (word_of_nat i :: cint) <s 0"
    and "\<not> (word_of_nat (length m) :: cint) \<le>s word_of_nat i"
    and "nat (sint (word_of_nat i :: cint)) = i"
    by (simp_all add: word_sless_alt word_sle_eq)
qed

lemma Get_MakeHandle:
  assumes "handle_contract H typeValue" and "length m \<le> kIndexMax H" and "i < length m"
  shows "Get H typeValue (MakeHandle H typeValue i) m = m ! i"
proof -
  from assms have "i < kIndexMax H" by simp
  with assms(1) have "GetTypedIndex H (MakeHandle H typeValue i) (Type_cast H typeValue) = word_of_nat i"
    by (rule decode_MakeHandle)
  with slot_index_props [OF assms] show ?thesis
    by (simp add: Get_def)
qed

lemma Free_MakeHandle:
  assumes "handle_contract H typeValue" and "length m \<le> kIndexMax H" and "i < length m"
  shows "Free H typeValue (MakeHandle H typeValue i) m = m[i := None]"
proof -
  from assms have "i < kIndexMax H" by simp
  with assms(1) have "GetTypedIndex H (MakeHandle H typeValue i) (Type_cast H typeValue) = word_of_nat i"
    by (rule decode_MakeHandle)
  with slot_index_props [OF assms] show ?thesis
    by (simp add: Free_def)
qed

text \<open>A \<^verbatim>\<open>Free\<close> of a handle with another typed index leaves the slot alone.\<close>

lemma Free_other_slot:
  assumes "GetTypedIndex H h' (Type_cast H typeValue) \<noteq> (word_of_nat i :: cint)"
  shows "Free H typeValue h' m ! i = m ! i"
proof -
  let ?index = "GetTypedIndex H h' (Type_cast H typeValue)"
  have "nat (sint ?index) \<noteq> i" if "\<not> ?index <s 0"
  proof
    assume e: "nat (sint ?index) = i"
    from that have "0 \<le> sint ?index" by (simp add: word_sless_alt)
    with e have "sint ?index = int i" by simp
    then have "word_of_int (sint ?index) = (word_of_int (int i) :: cint)" by simp
    then have "?index = word_of_nat i" by simp
    with assms show False by simp
  qed
  then show ?thesis by (auto simp: Free_def Let_def)
qed

lemma Free_keeps_empty: "i < length m \<Longrightarrow> m ! i = None \<Longrightarrow> Free H typeValue h m ! i = None"
  using Free_cases [of H typeValue h m] by (auto simp: nth_list_update)

subsection \<open>The length of the vector stays within kIndexMax\<close>

lemma do_call_length:
  "length m \<le> length (snd (do_call H typeValue make_shared upcast c m))"
  "length (snd (do_call H typeValue make_shared upcast c m)) \<le> length m + 1"
  by (cases c; simp add: Allocate_scan Allocate_ref_scan length_Free)+

lemma do_call_bound:
  "length m \<le> kIndexMax H \<Longrightarrow> length (snd (do_call H typeValue make_shared upcast c m)) \<le> kIndexMax H"
  by (cases c) (simp_all add: Allocate_scan Allocate_ref_scan length_Free)

lemma run_calls_length:
  "length m \<le> length (snd (run_calls H typeValue make_shared upcast cs m))"
proof (induction cs arbitrary: m)
  case Nil
  show ?case by simp
next
  case (Cons c cs)
  have "length m \<le> length (snd (do_call H typeValue make_shared upcast c m))"
    by (rule do_call_length)
  also have "\<dots> \<le> length (snd (run_calls H typeValue make_shared upcast cs
       (snd (do_call H typeValue make_shared upcast c m))))"
    by (rule Cons.IH)
  finally show ?case by (simp add: split_beta)
qed

lemma run_calls_bound:
  "length m \<le> kIndexMax H \<Longrightarrow>
   length (snd (run_calls H typeValue make_shared upcast cs m)) \<le> kIndexMax H"
proof (induction cs arbitrary: m)
  case Nil
  then show ?case by simp
next
  case (Cons c cs)
  from Cons.prems have "length (snd (do_call H typeValue make_shared upcast c m)) \<le> kIndexMax H"
    by (rule do_call_bound)
  then have "length (snd (run_calls H typeValue make_shared upcast cs
       (snd (do_call H typeValue make_shared upcast c m)))) \<le> kIndexMax H"
    by (rule Cons.IH)
  then show ?case by (simp add: split_beta)
qed

subsection \<open>The loop of GetAll\<close>

lemma GetAll_loop_filter:
  "i \<le> length m \<Longrightarrow>
   GetAll_loop H typeValue to_T m handles i =
     handles @ map (\<lambda>k. to_T (MakeHandle H typeValue k)) (filter (\<lambda>k. m ! k \<noteq> None) [i..<length m])"
proof (induction H typeValue to_T m handles i rule: GetAll_loop.induct)
  case (1 H typeValue to_T m handles i)
  show ?case
  proof (cases "i < length m")
    case False
    then show ?thesis by (subst GetAll_loop.simps) simp
  next
    case True
    then have u: "[i..<length m] = i # [i + 1..<length m]"
      by (simp add: upt_conv_Cons)
    from True have "GetAll_loop H typeValue to_T m
        (if m ! i \<noteq> None then handles @ [to_T (MakeHandle H typeValue i)] else handles) (i + 1) =
      (if m ! i \<noteq> None then handles @ [to_T (MakeHandle H typeValue i)] else handles) @
        map (\<lambda>k. to_T (MakeHandle H typeValue k)) (filter (\<lambda>k. m ! k \<noteq> None) [i + 1..<length m])"
      by (intro "1.IH") simp_all
    with True show ?thesis
      by (subst GetAll_loop.simps) (simp add: u del: upt_Suc)
  qed
qed

lemma GetAll_occupied:
  "GetAll H typeValue to_T m handles =
     handles @ map (\<lambda>k. to_T (MakeHandle H typeValue k)) (occupied_slots m)"
  by (simp add: GetAll_def GetAll_loop_filter occupied_slots_def)

lemma pair_handle_contract: "K \<le> 2147483647 \<Longrightarrow> handle_contract (pair_handle K) typeValue"
  by (simp add: handle_contract_def pair_handle_def MakeHandle_def)

subsection \<open>What a step leaves alone\<close>

lemma do_call_keeps_empty:
  assumes "i < length m" and "m ! i = None"
    and "\<not> reuses_slot i (fst (do_call H typeValue make_shared upcast c m))"
  shows "i < length (snd (do_call H typeValue make_shared upcast c m)) \<and>
         snd (do_call H typeValue make_shared upcast c m) ! i = None"
proof (cases c)
  case (Call_Free h)
  with assms(1,2) show ?thesis by (simp add: length_Free Free_keeps_empty)
next
  case (Call_Allocate args)
  then have "c = Call_Allocate args \<or> c = Call_Allocate_ref None" by simp
  note s = do_call_Allocate_scan [OF this, of H typeValue make_shared upcast m]
  from assms show ?thesis unfolding s by (auto simp: nth_append split: if_splits)
next
  case (Call_Allocate_ref p)
  then have "c = Call_Allocate undefined \<or> c = Call_Allocate_ref p" by simp
  note s = do_call_Allocate_scan [OF this, of H typeValue make_shared upcast m]
  from assms show ?thesis unfolding s by (auto simp: nth_append split: if_splits)
qed (use assms in simp_all)

lemma do_call_frame:
  assumes "i < length m"
    and "\<not> reuses_slot i (fst (do_call H typeValue make_shared upcast c m))"
    and "\<not> frees_handle H typeValue h c"
    and "GetTypedIndex H h (Type_cast H typeValue) = word_of_nat i"
  shows "i < length (snd (do_call H typeValue make_shared upcast c m)) \<and>
         snd (do_call H typeValue make_shared upcast c m) ! i = m ! i"
proof (cases c)
  case (Call_Free h')
  with assms(3,4) have "GetTypedIndex H h' (Type_cast H typeValue) \<noteq> (word_of_nat i :: cint)"
    by simp
  then have "Free H typeValue h' m ! i = m ! i" by (rule Free_other_slot)
  with Call_Free assms(1) show ?thesis by (simp add: length_Free)
next
  case (Call_Allocate args)
  then have "c = Call_Allocate args \<or> c = Call_Allocate_ref None" by simp
  note s = do_call_Allocate_scan [OF this, of H typeValue make_shared upcast m]
  from assms(1,2) show ?thesis unfolding s by (auto simp: nth_append split: if_splits)
next
  case (Call_Allocate_ref p)
  then have "c = Call_Allocate undefined \<or> c = Call_Allocate_ref p" by simp
  note s = do_call_Allocate_scan [OF this, of H typeValue make_shared upcast m]
  from assms(1,2) show ?thesis unfolding s by (auto simp: nth_append split: if_splits)
qed (use assms in simp_all)

lemma run_calls_Cons:
  "run_calls H typeValue make_shared upcast (c # cs) m =
     (fst (do_call H typeValue make_shared upcast c m) #
        fst (run_calls H typeValue make_shared upcast cs
              (snd (do_call H typeValue make_shared upcast c m))),
      snd (run_calls H typeValue make_shared upcast cs
              (snd (do_call H typeValue make_shared upcast c m))))"
  by (simp add: split_beta)

lemma no_reuse_Cons:
  "no_reuse H typeValue make_shared upcast i (c # cs) m \<longleftrightarrow>
     \<not> reuses_slot i (fst (do_call H typeValue make_shared upcast c m)) \<and>
     no_reuse H typeValue make_shared upcast i cs (snd (do_call H typeValue make_shared upcast c m))"
  by (simp add: split_beta)

declare run_calls.simps(2) [simp del] no_reuse.simps(2) [simp del]

lemma run_calls_keeps_empty:
  "i < length m \<Longrightarrow> m ! i = None \<Longrightarrow> no_reuse H typeValue make_shared upcast i cs m \<Longrightarrow>
   i < length (snd (run_calls H typeValue make_shared upcast cs m)) \<and>
   snd (run_calls H typeValue make_shared upcast cs m) ! i = None"
proof (induction cs arbitrary: m)
  case Nil
  then show ?case by simp
next
  case (Cons c cs)
  let ?m1 = "snd (do_call H typeValue make_shared upcast c m)"
  from Cons.prems(3) have 1: "\<not> reuses_slot i (fst (do_call H typeValue make_shared upcast c m))"
    and 2: "no_reuse H typeValue make_shared upcast i cs ?m1"
    by (simp_all add: no_reuse_Cons)
  from do_call_keeps_empty [OF Cons.prems(1,2) 1] have "i < length ?m1" and "?m1 ! i = None"
    by simp_all
  from Cons.IH [OF this 2] show ?case by (simp add: run_calls_Cons)
qed

lemma run_calls_frame:
  "i < length m \<Longrightarrow> no_reuse H typeValue make_shared upcast i cs m \<Longrightarrow>
   list_all (\<lambda>c. \<not> frees_handle H typeValue h c) cs \<Longrightarrow>
   GetTypedIndex H h (Type_cast H typeValue) = word_of_nat i \<Longrightarrow>
   i < length (snd (run_calls H typeValue make_shared upcast cs m)) \<and>
   snd (run_calls H typeValue make_shared upcast cs m) ! i = m ! i"
proof (induction cs arbitrary: m)
  case Nil
  then show ?case by simp
next
  case (Cons c cs)
  let ?m1 = "snd (do_call H typeValue make_shared upcast c m)"
  from Cons.prems(2) have 1: "\<not> reuses_slot i (fst (do_call H typeValue make_shared upcast c m))"
    and 2: "no_reuse H typeValue make_shared upcast i cs ?m1"
    by (simp_all add: no_reuse_Cons)
  from Cons.prems(3) have 3: "\<not> frees_handle H typeValue h c"
    and 4: "list_all (\<lambda>c. \<not> frees_handle H typeValue h c) cs"
    by simp_all
  from do_call_frame [OF Cons.prems(1) 1 3 Cons.prems(4)]
  have 5: "i < length ?m1" and 6: "?m1 ! i = m ! i"
    by simp_all
  from Cons.IH [OF 5 2 4 Cons.prems(4)] 6 show ?case by (simp add: run_calls_Cons)
qed

subsection \<open>Runs without Free in which every Allocate installs a resource\<close>

lemma run_calls_length_replies:
  "length (fst (run_calls H typeValue make_shared upcast cs m)) = length cs"
  by (induction cs arbitrary: m) (simp_all add: run_calls_Cons)

lemma installs_or_reads_iff:
  "installs_or_reads c r \<longleftrightarrow>
     \<not> is_Free c \<and> (is_Allocate c \<longrightarrow> successful_Allocate c r)"
  by (cases "(c, r)" rule: installs_or_reads.cases) simp_all

lemma installs_or_reads_run_iff:
  "length rs = length cs \<Longrightarrow>
   list_all2 installs_or_reads cs rs \<longleftrightarrow>
     list_all (\<lambda>c. \<not> is_Free c) cs \<and>
     list_all2 (\<lambda>c r. is_Allocate c \<longrightarrow> successful_Allocate c r) cs rs"
proof (induction cs arbitrary: rs)
  case Nil
  then show ?case by simp
next
  case (Cons c cs)
  from Cons.prems obtain r rs' where rs: "rs = r # rs'" and "length rs' = length cs"
    by (cases rs) simp_all
  from Cons.IH [OF this(2)] rs show ?case
    by (auto simp: installs_or_reads_iff)
qed

text \<open>The first step of such a run: an \<^verbatim>\<open>Allocate\<close> that installs, or a read.\<close>

lemma installs_or_reads_run_ConsE:
  assumes "run_calls H typeValue make_shared upcast (c # cs) m = (rs, m')"
    and "list_all2 installs_or_reads (c # cs) rs"
  obtains (install) i h m1 rs' where "rs = Reply_Allocate (Return_MakeHandle i h) # rs'"
    and "do_call H typeValue make_shared upcast c m = (Reply_Allocate (Return_MakeHandle i h), m1)"
    and "run_calls H typeValue make_shared upcast cs m1 = (rs', m')"
    and "list_all2 installs_or_reads cs rs'"
    and "installed make_shared upcast c \<noteq> None" and "is_Allocate c"
  | (read) r rs' where "rs = r # rs'"
    and "run_calls H typeValue make_shared upcast cs m = (rs', m')"
    and "list_all2 installs_or_reads cs rs'"
    and "allocated_slots rs = allocated_slots rs'"
    and "allocated_handles rs = allocated_handles rs'" and "\<not> is_Allocate c"
proof -
  from assms(2) obtain r rs' where rs: "rs = r # rs'" and sc: "installs_or_reads c r"
    and all: "list_all2 installs_or_reads cs rs'"
    by (auto simp: list_all2_Cons1)
  obtain r0 m1 where step: "do_call H typeValue make_shared upcast c m = (r0, m1)"
    by (cases "do_call H typeValue make_shared upcast c m")
  obtain rs0 m0 where run: "run_calls H typeValue make_shared upcast cs m1 = (rs0, m0)"
    by (cases "run_calls H typeValue make_shared upcast cs m1")
  from assms(1) step run rs have eq: "r0 = r" "rs0 = rs'" "m0 = m'"
    by (simp_all add: run_calls_Cons)
  show thesis
  proof (cases c)
    case (Call_Allocate args)
    with sc obtain i h where ri: "r = Reply_Allocate (Return_MakeHandle i h)"
      by (cases "(c, r)" rule: installs_or_reads.cases) simp_all
    show thesis
    proof (rule install)
      show "rs = Reply_Allocate (Return_MakeHandle i h) # rs'" using rs ri by simp
      show "do_call H typeValue make_shared upcast c m =
          (Reply_Allocate (Return_MakeHandle i h), m1)"
        using step eq ri by simp
      show "run_calls H typeValue make_shared upcast cs m1 = (rs', m')" using run eq by simp
      show "list_all2 installs_or_reads cs rs'" by (rule all)
      show "installed make_shared upcast c \<noteq> None" using Call_Allocate by simp
      show "is_Allocate c" using Call_Allocate by simp
    qed
  next
    case (Call_Allocate_ref p)
    with sc obtain i h where ri: "r = Reply_Allocate (Return_MakeHandle i h)" and p: "p \<noteq> None"
      by (cases "(c, r)" rule: installs_or_reads.cases) simp_all
    show thesis
    proof (rule install)
      show "rs = Reply_Allocate (Return_MakeHandle i h) # rs'" using rs ri by simp
      show "do_call H typeValue make_shared upcast c m =
          (Reply_Allocate (Return_MakeHandle i h), m1)"
        using step eq ri by simp
      show "run_calls H typeValue make_shared upcast cs m1 = (rs', m')" using run eq by simp
      show "list_all2 installs_or_reads cs rs'" by (rule all)
      show "installed make_shared upcast c \<noteq> None" using Call_Allocate_ref p by auto
      show "is_Allocate c" using Call_Allocate_ref by simp
    qed
  next
    case (Call_Get h)
    with step eq have r: "r = Reply_Get (Get H typeValue h m)" and m1: "m1 = m" by auto
    show thesis
    proof (rule read)
      show "rs = r # rs'" by (rule rs)
      show "run_calls H typeValue make_shared upcast cs m = (rs', m')" using run eq m1 by simp
      show "list_all2 installs_or_reads cs rs'" by (rule all)
      show "allocated_slots rs = allocated_slots rs'" using rs r by simp
      show "allocated_handles rs = allocated_handles rs'" using rs r by simp
      show "\<not> is_Allocate c" using Call_Get by simp
    qed
  next
    case (Call_GetAll handles)
    with step eq have r: "r = Reply_GetAll (GetAll H typeValue (\<lambda>h. h) m handles)"
      and m1: "m1 = m" by auto
    show thesis
    proof (rule read)
      show "rs = r # rs'" by (rule rs)
      show "run_calls H typeValue make_shared upcast cs m = (rs', m')" using run eq m1 by simp
      show "list_all2 installs_or_reads cs rs'" by (rule all)
      show "allocated_slots rs = allocated_slots rs'" using rs r by simp
      show "allocated_handles rs = allocated_handles rs'" using rs r by simp
      show "\<not> is_Allocate c" using Call_GetAll by simp
    qed
  next
    case (Call_Free h)
    with sc show thesis by simp
  qed
qed

text \<open>Occupied slots keep their content, and the vector does not shrink.\<close>

lemma installing_run_keeps:
  "run_calls H typeValue make_shared upcast cs m = (rs, m') \<Longrightarrow>
   list_all2 installs_or_reads cs rs \<Longrightarrow> k < length m \<Longrightarrow> m ! k \<noteq> None \<Longrightarrow>
   k < length m' \<and> m' ! k = m ! k"
proof (induction cs arbitrary: m rs)
  case Nil
  then show ?case by simp
next
  case (Cons c cs)
  from Cons.prems(1,2) show ?case
  proof (cases rule: installs_or_reads_run_ConsE)
    case (install i h m1 rs')
    note s = do_call_Return_MakeHandle_slot [OF install(2)]
    from Cons.prems(3,4) s(3) have "k \<noteq> i" by auto
    with Cons.prems(3) s(5) have eq: "m1 ! k = m ! k" by simp
    from Cons.prems(3) s(4) have lt: "k < length m1" by simp
    from eq Cons.prems(4) have "m1 ! k \<noteq> None" by simp
    from Cons.IH [OF install(3,4) lt this] eq show ?thesis by simp
  next
    case (read r rs')
    from Cons.IH [OF read(2,3) Cons.prems(3,4)] show ?thesis .
  qed
qed

text \<open>Every slot chosen is occupied at the end, and was empty or absent at the start.\<close>

lemma installing_run_slots:
  "run_calls H typeValue make_shared upcast cs m = (rs, m') \<Longrightarrow>
   list_all2 installs_or_reads cs rs \<Longrightarrow> j \<in> set (allocated_slots rs) \<Longrightarrow>
   j < length m' \<and> m' ! j \<noteq> None \<and> \<not> (j < length m \<and> m ! j \<noteq> None)"
proof (induction cs arbitrary: m rs)
  case Nil
  then show ?case by simp
next
  case (Cons c cs)
  from Cons.prems(1,2) show ?case
  proof (cases rule: installs_or_reads_run_ConsE)
    case (install i h m1 rs')
    note s = do_call_Return_MakeHandle_slot [OF install(2)]
    from Cons.prems(3) install(1) have "j = i \<or> j \<in> set (allocated_slots rs')" by simp
    then show ?thesis
    proof
      assume ji: "j = i"
      from s(1,2) install(5) have "i < length m1" and "m1 ! i \<noteq> None" by simp_all
      from installing_run_keeps [OF install(3,4) this] \<open>m1 ! i \<noteq> None\<close>
      have "i < length m'" and "m' ! i \<noteq> None" by simp_all
      with ji s(3) show ?thesis by auto
    next
      assume "j \<in> set (allocated_slots rs')"
      from Cons.IH [OF install(3,4) this]
      have 1: "j < length m'" and 2: "m' ! j \<noteq> None"
        and 3: "\<not> (j < length m1 \<and> m1 ! j \<noteq> None)"
        by simp_all
      have "\<not> (j < length m \<and> m ! j \<noteq> None)"
      proof
        assume a: "j < length m \<and> m ! j \<noteq> None"
        with s(3) have "j \<noteq> i" by auto
        with a s(5) have "m1 ! j = m ! j" by simp
        moreover from a s(4) have "j < length m1" by simp
        ultimately show False using a 3 by simp
      qed
      with 1 2 show ?thesis by simp
    qed
  next
    case (read r rs')
    from Cons.prems(3) read(4) have "j \<in> set (allocated_slots rs')" by simp
    from Cons.IH [OF read(2,3) this] show ?thesis .
  qed
qed

lemma installing_run_distinct:
  "run_calls H typeValue make_shared upcast cs m = (rs, m') \<Longrightarrow>
   list_all2 installs_or_reads cs rs \<Longrightarrow> distinct (allocated_slots rs)"
proof (induction cs arbitrary: m rs)
  case Nil
  then show ?case by simp
next
  case (Cons c cs)
  from Cons.prems(1,2) show ?case
  proof (cases rule: installs_or_reads_run_ConsE)
    case (install i h m1 rs')
    note s = do_call_Return_MakeHandle_slot [OF install(2)]
    have "i \<notin> set (allocated_slots rs')"
    proof
      assume "i \<in> set (allocated_slots rs')"
      from installing_run_slots [OF install(3,4) this]
      have "\<not> (i < length m1 \<and> m1 ! i \<noteq> None)" by simp
      with s(1,2) install(5) show False by simp
    qed
    with Cons.IH [OF install(3,4)] install(1) show ?thesis by simp
  next
    case (read r rs')
    from Cons.IH [OF read(2,3)] read(4) show ?thesis by simp
  qed
qed

lemma installing_run_handles:
  "run_calls H typeValue make_shared upcast cs m = (rs, m') \<Longrightarrow>
   list_all2 installs_or_reads cs rs \<Longrightarrow>
   allocated_handles rs = map (MakeHandle H typeValue) (allocated_slots rs) \<and>
   length (allocated_slots rs) = length (filter is_Allocate cs)"
proof (induction cs arbitrary: m rs)
  case Nil
  then show ?case by simp
next
  case (Cons c cs)
  from Cons.prems(1,2) show ?case
  proof (cases rule: installs_or_reads_run_ConsE)
    case (install i h m1 rs')
    from do_call_Return_MakeHandleD(2) [OF install(2)] Cons.IH [OF install(3,4)] install(1,6)
    show ?thesis by simp
  next
    case (read r rs')
    from Cons.IH [OF read(2,3)] read(4,5,6) show ?thesis by simp
  qed
qed

text \<open>From a vector with no empty slot, each such \<^verbatim>\<open>Allocate\<close> appends.\<close>

lemma installing_run_full:
  "run_calls H typeValue make_shared upcast cs m = (rs, m') \<Longrightarrow>
   list_all2 installs_or_reads cs rs \<Longrightarrow> None \<notin> set m \<Longrightarrow>
   m' = m @ map (installed make_shared upcast) (filter is_Allocate cs) \<and>
   allocated_slots rs = [length m..<length m + length (filter is_Allocate cs)]"
proof (induction cs arbitrary: m rs)
  case Nil
  then show ?case by simp
next
  case (Cons c cs)
  from Cons.prems(1,2) show ?case
  proof (cases rule: installs_or_reads_run_ConsE)
    case (install i h m1 rs')
    let ?as = "filter is_Allocate cs"
    note d = do_call_Return_MakeHandleD [OF install(2)]
    from d(1) Cons.prems(3) have i: "i = length m" by (simp add: first_empty_full)
    with d(3) have m1: "m1 = m @ [installed make_shared upcast c]" by simp
    with install(5) Cons.prems(3) have "None \<notin> set m1" by auto
    from Cons.IH [OF install(3,4) this]
    have a: "m' = m1 @ map (installed make_shared upcast) ?as"
      and b: "allocated_slots rs' = [length m1..<length m1 + length ?as]"
      by blast+
    from install(6) have f: "filter is_Allocate (c # cs) = c # ?as" by simp
    from a m1 have "m' = m @ map (installed make_shared upcast) (c # ?as)"
      by simp
    moreover from m1 have "length m1 = Suc (length m)"
      by simp
    with b have "allocated_slots rs' = [Suc (length m)..<Suc (length m) + length ?as]"
      by (simp only:)
    moreover have "[length m..<length m + length (c # ?as)] =
        length m # [Suc (length m)..<Suc (length m) + length ?as]"
      by (simp add: upt_conv_Cons del: upt_Suc)
    moreover from install(1) i have "allocated_slots rs = length m # allocated_slots rs'"
      by simp
    ultimately show ?thesis by (simp only: f)
  next
    case (read r rs')
    from Cons.IH [OF read(2,3) Cons.prems(3)] read(4,6) show ?thesis by simp
  qed
qed

section \<open>The claims\<close>

subsection \<open>C1: allocation at capacity\<close>

text \<open>
  C1. In a table state where exactly \<open>kIndexMax\<close> slots are live (every slot is occupied
  and the vector has \<open>kIndexMax\<close> slots), the next \<^verbatim>\<open>Allocate\<close>, of either overload,
  returns through \<^verbatim>\<open>return 0\<close> the handle that \<open>0\<close> converts to, and the vector is
  unchanged: no slot is modified and no slot is added.
\<close>

theorem Allocate_at_capacity:
  assumes "length m = kIndexMax H" and "None \<notin> set m"
  shows "Allocate H typeValue make_shared args m = (Return_0 (THandle_of_int H 0), m) \<and>
         Allocate_ref H typeValue upcast p m = (Return_0 (THandle_of_int H 0), m)"
  using assms by (simp add: Allocate_scan Allocate_ref_scan first_empty_full)

theorem Allocate_at_capacity_witness:
  "Allocate (pair_handle 2) 1 (\<lambda>a. a) (7::nat) [Some 5, Some 6] =
     (Return_0 (0, 0), [Some 5, Some 6]) \<and>
   Allocate_ref (pair_handle 2) 1 (\<lambda>x. x) (Some (9::nat)) [Some 5, Some 6] =
     (Return_0 (0, 0), [Some 5, Some 6])"
proof -
  have 1: "length [Some 5, Some (6::nat)] = kIndexMax (pair_handle 2)"
    by (simp add: pair_handle_def)
  have 2: "None \<notin> set [Some 5, Some (6::nat)]"
    by simp
  from Allocate_at_capacity [OF 1 2, where typeValue = 1 and make_shared = "\<lambda>a. a"
      and args = 7 and upcast = "\<lambda>x. x" and p = "Some 9"]
  show ?thesis by (simp add: pair_handle_def)
qed

subsection \<open>C5: handles that name no slot\<close>

text \<open>
  C5. For a handle whose index, decoded for this table's type, is negative, or is at or
  beyond the current length of the vector, \<^verbatim>\<open>Get\<close> returns the null pointer ("not
  found") and \<^verbatim>\<open>Free\<close> does nothing; both leave the vector unchanged, and both answer
  as they always do (a pointer, nothing), with no error of another kind.
\<close>

theorem Get_Free_invalid_handle:
  assumes "sint (GetTypedIndex H h (Type_cast H typeValue)) < 0 \<or>
           int (length m) \<le> sint (GetTypedIndex H h (Type_cast H typeValue))"
  shows "Get H typeValue h m = None \<and> Free H typeValue h m = m \<and>
         do_call H typeValue make_shared upcast (Call_Get h) m = (Reply_Get None, m) \<and>
         do_call H typeValue make_shared upcast (Call_Free h) m = (Reply_Free, m)"
proof -
  let ?index = "GetTypedIndex H h (Type_cast H typeValue)"
  from assms have "?index <s 0 \<or> word_of_nat (length m) \<le>s ?index"
    using index_beyond [of "length m" ?index] by (auto simp: word_sless_alt)
  then show ?thesis by (auto simp: Get_def Free_def Let_def)
qed

theorem Get_Free_invalid_handle_witness:
  "Get (pair_handle 8) 1 (0, 2) [Some (5::nat), Some 6] = None \<and>
   Free (pair_handle 8) 1 (0, 2) [Some (5::nat), Some 6] = [Some 5, Some 6] \<and>
   Get (pair_handle 8) 1 (2, 1) [Some (5::nat), Some 6] = None \<and>
   Free (pair_handle 8) 1 (2, 1) [Some (5::nat), Some 6] = [Some 5, Some 6]"
proof -
  have 1: "sint (GetTypedIndex (pair_handle 8) (0, 2) (Type_cast (pair_handle 8) 1)) < 0 \<or>
           int (length [Some (5::nat), Some 6])
             \<le> sint (GetTypedIndex (pair_handle 8) (0, 2) (Type_cast (pair_handle 8) 1))"
    by (simp add: pair_handle_def)
  have 2: "sint (GetTypedIndex (pair_handle 8) (2, 1) (Type_cast (pair_handle 8) 1)) < 0 \<or>
           int (length [Some (5::nat), Some 6])
             \<le> sint (GetTypedIndex (pair_handle 8) (2, 1) (Type_cast (pair_handle 8) 1))"
    by (simp add: pair_handle_def)
  from Get_Free_invalid_handle [OF 1] Get_Free_invalid_handle [OF 2]
  show ?thesis by simp
qed

subsection \<open>C6: the vector never shrinks\<close>

text \<open>
  C6. The length of the vector does not decrease across any operation: an \<^verbatim>\<open>Allocate\<close>
  of either overload adds at most one slot, and \<^verbatim>\<open>Get\<close>, \<^verbatim>\<open>Free\<close> and \<^verbatim>\<open>GetAll\<close>
  leave the length as it is; \<^verbatim>\<open>Free\<close> at most makes one existing slot empty. So the
  length does not decrease across any run of calls.
\<close>

theorem length_never_shrinks:
  "length m \<le> length (snd (Allocate H typeValue make_shared args m)) \<and>
   length (snd (Allocate H typeValue make_shared args m)) \<le> length m + 1 \<and>
   length m \<le> length (snd (Allocate_ref H typeValue upcast p m)) \<and>
   length (snd (Allocate_ref H typeValue upcast p m)) \<le> length m + 1 \<and>
   length (Free H typeValue h m) = length m \<and>
   (Free H typeValue h m = m \<or> (\<exists>k<length m. Free H typeValue h m = m[k := None])) \<and>
   snd (do_call H typeValue make_shared upcast (Call_Get h) m) = m \<and>
   snd (do_call H typeValue make_shared upcast (Call_GetAll handles) m) = m \<and>
   length m \<le> length (snd (run_calls H typeValue make_shared upcast cs m))"
proof -
  have "length m \<le> length (snd (Allocate H typeValue make_shared args m))"
    and "length (snd (Allocate H typeValue make_shared args m)) \<le> length m + 1"
    by (simp_all add: Allocate_scan)
  moreover have "length m \<le> length (snd (Allocate_ref H typeValue upcast p m))"
    and "length (snd (Allocate_ref H typeValue upcast p m)) \<le> length m + 1"
    by (simp_all add: Allocate_ref_scan)
  moreover note length_Free [of H typeValue h m] Free_cases [of H typeValue h m]
    run_calls_length [of m H typeValue make_shared upcast cs]
  ultimately show ?thesis by simp
qed

theorem length_never_shrinks_witness:
  "snd (run_calls (pair_handle 8) 1 (\<lambda>a. a) (\<lambda>x. x)
     [Call_Allocate (7::nat), Call_Allocate 8, Call_Free (0, 1), Call_Get (0, 1)] []) =
     [None, Some 8] \<and>
   length ([] :: nat shared_ptr list) \<le> length (snd (run_calls (pair_handle 8) 1 (\<lambda>a. a) (\<lambda>x. x)
     [Call_Allocate (7::nat), Call_Allocate 8, Call_Free (0, 1), Call_Get (0, 1)] []))"
proof -
  have "snd (run_calls (pair_handle 8) 1 (\<lambda>a. a) (\<lambda>x. x)
     [Call_Allocate (7::nat), Call_Allocate 8, Call_Free (0, 1), Call_Get (0, 1)] []) =
     [None, Some 8]"
    by (simp add: run_calls_Cons Allocate_scan first_empty_def Free_def pair_handle_def
        MakeHandle_def word_sle_eq word_sless_alt)
  moreover from length_never_shrinks [where m = "[] :: nat shared_ptr list"
      and H = "pair_handle 8" and typeValue = 1 and make_shared = "\<lambda>a. a" and upcast = "\<lambda>x. x"
      and cs = "[Call_Allocate (7::nat), Call_Allocate 8, Call_Free (0, 1), Call_Get (0, 1)]"]
  have "length ([] :: nat shared_ptr list) \<le> length (snd (run_calls (pair_handle 8) 1 (\<lambda>a. a) (\<lambda>x. x)
     [Call_Allocate (7::nat), Call_Allocate 8, Call_Free (0, 1), Call_Get (0, 1)] []))"
    by blast
  ultimately show ?thesis by blast
qed

subsection \<open>C9: GetAll appends\<close>

text \<open>
  C9. \<^verbatim>\<open>GetAll\<close> does not clear or overwrite the caller's vector: whatever it held
  before the call is still there, unchanged, as a prefix of the result, and the table's
  handles are appended after it.
\<close>

theorem GetAll_appends:
  "GetAll H typeValue to_T m handles = handles @ GetAll H typeValue to_T m [] \<and>
   take (length handles) (GetAll H typeValue to_T m handles) = handles \<and>
   drop (length handles) (GetAll H typeValue to_T m handles) =
     map (\<lambda>k. to_T (MakeHandle H typeValue k)) (occupied_slots m)"
  by (simp add: GetAll_occupied)

theorem GetAll_appends_witness:
  "GetAll (pair_handle 8) 1 (\<lambda>h. h) [Some (5::nat), None, Some 6] [(7, 1)] =
     [(7, 1), (0, 1), (2, 1)]"
proof -
  have "GetAll (pair_handle 8) 1 (\<lambda>h. h) [Some (5::nat), None, Some 6] [] = [(0, 1), (2, 1)]"
    by (simp add: GetAll_def GetAll_loop.simps pair_handle_def MakeHandle_def)
  with GetAll_appends [of "pair_handle 8" 1 "\<lambda>h. h" "[Some (5::nat), None, Some 6]" "[(7, 1)]"]
  show ?thesis by simp
qed

subsection \<open>C3: first fit\<close>

text \<open>
  C3. \<^verbatim>\<open>Allocate\<close>, of either overload, fills the lowest-indexed empty slot, scanning
  from index 0, and appends a new slot only when no slot is empty (and then only below
  \<open>kIndexMax\<close>). In particular: after an \<^verbatim>\<open>Allocate\<close> that returned a handle \<open>h\<close> for
  slot \<open>i\<close>, a \<^verbatim>\<open>Free\<close> of \<open>h\<close>, and any further calls in which no \<^verbatim>\<open>Allocate\<close>
  chooses slot \<open>i\<close>, an \<^verbatim>\<open>Allocate\<close> returns a handle for slot \<open>i\<close> again (the same
  handle), provided no slot below \<open>i\<close> is empty at that point.
\<close>

theorem Allocate_first_fit:
  "(j < length m \<and> m ! j = None \<and> (\<forall>k<j. m ! k \<noteq> None) \<longrightarrow>
      Allocate H typeValue make_shared args m =
        (Return_MakeHandle j (MakeHandle H typeValue j), m[j := Some (make_shared args)]) \<and>
      Allocate_ref H typeValue upcast p m =
        (Return_MakeHandle j (MakeHandle H typeValue j), m[j := map_option upcast p])) \<and>
   (None \<notin> set m \<longrightarrow>
      Allocate H typeValue make_shared args m =
        (if kIndexMax H \<le> length m then (Return_0 (THandle_of_int H 0), m)
         else (Return_MakeHandle (length m) (MakeHandle H typeValue (length m)),
               m @ [Some (make_shared args)])) \<and>
      Allocate_ref H typeValue upcast p m =
        (if kIndexMax H \<le> length m then (Return_0 (THandle_of_int H 0), m)
         else (Return_MakeHandle (length m) (MakeHandle H typeValue (length m)),
               m @ [map_option upcast p]))) \<and>
   (handle_contract H typeValue \<and> length m \<le> kIndexMax H \<and>
    do_call H typeValue make_shared upcast c m = (Reply_Allocate (Return_MakeHandle i h), m1) \<and>
    no_reuse H typeValue make_shared upcast i cs (Free H typeValue h m1) \<and>
    run_calls H typeValue make_shared upcast cs (Free H typeValue h m1) = (rs, m2) \<and>
    (\<forall>k<i. m2 ! k \<noteq> None) \<longrightarrow>
      Allocate H typeValue make_shared args' m2 =
        (Return_MakeHandle i h, m2[i := Some (make_shared args')]) \<and>
      Allocate_ref H typeValue upcast p' m2 =
        (Return_MakeHandle i h, m2[i := map_option upcast p']))"
proof (intro conjI impI)
  assume "j < length m \<and> m ! j = None \<and> (\<forall>k<j. m ! k \<noteq> None)"
  then have fe: "first_empty m = j" and j: "j < length m"
    by (simp_all add: first_empty_eqI)
  from fe j show "Allocate H typeValue make_shared args m =
        (Return_MakeHandle j (MakeHandle H typeValue j), m[j := Some (make_shared args)])"
    by (simp add: Allocate_scan)
  from fe j show "Allocate_ref H typeValue upcast p m =
        (Return_MakeHandle j (MakeHandle H typeValue j), m[j := map_option upcast p])"
    by (simp add: Allocate_ref_scan)
next
  assume "None \<notin> set m"
  then have fe: "first_empty m = length m" by (rule first_empty_full)
  from fe show "Allocate H typeValue make_shared args m =
        (if kIndexMax H \<le> length m then (Return_0 (THandle_of_int H 0), m)
         else (Return_MakeHandle (length m) (MakeHandle H typeValue (length m)),
               m @ [Some (make_shared args)]))"
    by (simp add: Allocate_scan)
  from fe show "Allocate_ref H typeValue upcast p m =
        (if kIndexMax H \<le> length m then (Return_0 (THandle_of_int H 0), m)
         else (Return_MakeHandle (length m) (MakeHandle H typeValue (length m)),
               m @ [map_option upcast p]))"
    by (simp add: Allocate_ref_scan)
next
  assume a: "handle_contract H typeValue \<and> length m \<le> kIndexMax H \<and>
    do_call H typeValue make_shared upcast c m = (Reply_Allocate (Return_MakeHandle i h), m1) \<and>
    no_reuse H typeValue make_shared upcast i cs (Free H typeValue h m1) \<and>
    run_calls H typeValue make_shared upcast cs (Free H typeValue h m1) = (rs, m2) \<and>
    (\<forall>k<i. m2 ! k \<noteq> None)"
  then have step: "do_call H typeValue make_shared upcast c m =
      (Reply_Allocate (Return_MakeHandle i h), m1)"
    and contract: "handle_contract H typeValue" and bound: "length m \<le> kIndexMax H"
    and nr: "no_reuse H typeValue make_shared upcast i cs (Free H typeValue h m1)"
    and run: "run_calls H typeValue make_shared upcast cs (Free H typeValue h m1) = (rs, m2)"
    and below: "\<forall>k<i. m2 ! k \<noteq> None"
    by simp_all
  from step have h: "h = MakeHandle H typeValue i" by (rule do_call_Return_MakeHandleD)
  from step have i: "i < length m1" by (rule do_call_Return_MakeHandle_slot)
  from do_call_bound [OF bound, of typeValue make_shared upcast c] step
  have b1: "length m1 \<le> kIndexMax H" by simp
  from contract b1 i have "Free H typeValue h m1 = m1[i := None]"
    unfolding h by (rule Free_MakeHandle)
  with i have "i < length (Free H typeValue h m1)" and "Free H typeValue h m1 ! i = None"
    by simp_all
  from run_calls_keeps_empty [OF this nr] run have i2: "i < length m2" and "m2 ! i = None"
    by simp_all
  with below have fe: "first_empty m2 = i" by (simp add: first_empty_eqI)
  from fe i2 h show "Allocate H typeValue make_shared args' m2 =
        (Return_MakeHandle i h, m2[i := Some (make_shared args')])"
    by (simp add: Allocate_scan)
  from fe i2 h show "Allocate_ref H typeValue upcast p' m2 =
        (Return_MakeHandle i h, m2[i := map_option upcast p'])"
    by (simp add: Allocate_ref_scan)
qed

theorem Allocate_first_fit_witness:
  "Allocate (pair_handle 8) 1 (\<lambda>a. a) (7::nat) [Some 5, None, Some 6, None] =
     (Return_MakeHandle 1 (1, 1), [Some 5, Some 7, Some 6, None]) \<and>
   Allocate (pair_handle 8) 1 (\<lambda>a. a) (7::nat) [Some 5, Some 6] =
     (Return_MakeHandle 2 (2, 1), [Some 5, Some 6, Some 7]) \<and>
   Allocate (pair_handle 8) 1 (\<lambda>a. a) (9::nat) [Some 8, None] =
     (Return_MakeHandle 1 (1, 1), [Some 8, Some 9])"
proof -
  have 1: "1 < length [Some (5::nat), None, Some 6, None] \<and>
      [Some (5::nat), None, Some 6, None] ! 1 = None \<and>
      (\<forall>k<1. [Some (5::nat), None, Some 6, None] ! k \<noteq> None)"
    by simp
  have 2: "None \<notin> set [Some (5::nat), Some 6]"
    by simp
  have c: "handle_contract (pair_handle 8) 1"
    by (simp add: pair_handle_contract)
  have b: "length [Some (5::nat)] \<le> kIndexMax (pair_handle 8)"
    by (simp add: pair_handle_def)
  have step: "do_call (pair_handle 8) 1 (\<lambda>a. a) (\<lambda>x. x) (Call_Allocate 7) [Some (5::nat)] =
      (Reply_Allocate (Return_MakeHandle 1 (1, 1)), [Some 5, Some 7])"
    by (simp add: Allocate_scan first_empty_def pair_handle_def MakeHandle_def)
  have free: "Free (pair_handle 8) 1 (1, 1) [Some (5::nat), Some 7] = [Some 5, None]"
    by (simp add: Free_def pair_handle_def word_sle_eq word_sless_alt)
  have nr: "no_reuse (pair_handle 8) 1 (\<lambda>a. a) (\<lambda>x. x) 1 [Call_Free (0, 1), Call_Allocate 8]
      (Free (pair_handle 8) 1 (1, 1) [Some (5::nat), Some 7])"
    unfolding free
    by (simp add: no_reuse_Cons Allocate_scan first_empty_def Free_def pair_handle_def
        MakeHandle_def word_sle_eq word_sless_alt)
  have run: "run_calls (pair_handle 8) 1 (\<lambda>a. a) (\<lambda>x. x) [Call_Free (0, 1), Call_Allocate 8]
      (Free (pair_handle 8) 1 (1, 1) [Some (5::nat), Some 7]) =
      ([Reply_Free, Reply_Allocate (Return_MakeHandle 0 (0, 1))], [Some 8, None])"
    unfolding free
    by (simp add: run_calls_Cons Allocate_scan first_empty_def Free_def pair_handle_def
        MakeHandle_def word_sle_eq word_sless_alt)
  have below: "\<forall>k<1. [Some (8::nat), None] ! k \<noteq> None"
    by simp
  note 3 = conjI [OF c conjI [OF b conjI [OF step conjI [OF nr conjI [OF run below]]]]]
  note t = Allocate_first_fit [where H = "pair_handle 8" and typeValue = 1
      and make_shared = "\<lambda>a. a" and upcast = "\<lambda>x. x :: nat"]
  note t1 = t [where m = "[Some 5, None, Some 6, None]" and j = 1 and args = 7,
      THEN conjunct1, THEN mp, OF 1, THEN conjunct1]
  note t2 = t [where m = "[Some 5, Some 6]" and args = 7,
      THEN conjunct2, THEN conjunct1, THEN mp, OF 2, THEN conjunct1]
  note t3 = t [where args' = 9, THEN conjunct2, THEN conjunct2, THEN mp, OF 3, THEN conjunct1]
  from t1 t2 t3 show ?thesis
    by (simp add: pair_handle_def MakeHandle_def)
qed

subsection \<open>C2: distinct indices\<close>

text \<open>
  C2. In a run of calls with no \<^verbatim>\<open>Free\<close> in which every \<^verbatim>\<open>Allocate\<close> is successful
  (it installs a resource and returns a handle for it), the slots chosen are pairwise
  distinct, and so are the indices that the handles returned decode to: each handle
  decodes to the slot chosen for it. The run may be of the constructing overload alone,
  for which every call that returns a handle is successful; calls of \<^verbatim>\<open>Get\<close> and
  \<^verbatim>\<open>GetAll\<close> may come in between. The table starts in any state within \<open>kIndexMax\<close>
  slots, as every state reached from the empty table is, and the handle type decodes the
  handles it makes.
\<close>

theorem Allocate_distinct_indices:
  assumes "handle_contract H typeValue" and "length m \<le> kIndexMax H"
    and "run_calls H typeValue make_shared upcast cs m = (rs, m')"
    and "list_all (\<lambda>c. \<not> is_Free c) cs"
    and "list_all2 (\<lambda>c r. is_Allocate c \<longrightarrow> successful_Allocate c r) cs rs"
  shows "length (allocated_handles rs) = length (filter is_Allocate cs) \<and>
         distinct (allocated_slots rs) \<and>
         map (\<lambda>h. sint (GetTypedIndex H h (Type_cast H typeValue))) (allocated_handles rs) =
           map int (allocated_slots rs) \<and>
         distinct (map (\<lambda>h. sint (GetTypedIndex H h (Type_cast H typeValue)))
           (allocated_handles rs))"
proof -
  from assms(3) run_calls_length_replies [of H typeValue make_shared upcast cs m]
  have "length rs = length cs" by simp
  with assms(4,5) have inst: "list_all2 installs_or_reads cs rs"
    by (simp add: installs_or_reads_run_iff)
  note hs = installing_run_handles [OF assms(3) inst]
  note dist = installing_run_distinct [OF assms(3) inst]
  from run_calls_bound [OF assms(2), of typeValue make_shared upcast cs] assms(3)
  have bound: "length m' \<le> kIndexMax H" by simp
  have decode: "sint (GetTypedIndex H (MakeHandle H typeValue j) (Type_cast H typeValue)) = int j"
    if "j \<in> set (allocated_slots rs)" for j
  proof -
    from installing_run_slots [OF assms(3) inst that] bound have j: "j < kIndexMax H" by simp
    with assms(1) have "j \<le> 2147483647" by (simp add: handle_contract_def)
    then have "sint (word_of_nat j :: cint) = int j" by (rule sint_cint_of_nat)
    with decode_MakeHandle [OF assms(1) j] show ?thesis by simp
  qed
  then have eq: "map (\<lambda>h. sint (GetTypedIndex H h (Type_cast H typeValue))) (allocated_handles rs) =
      map int (allocated_slots rs)"
    using hs by (simp add: comp_def)
  from dist have "distinct (map int (allocated_slots rs))"
    by (simp add: distinct_map)
  with eq have d: "distinct (map (\<lambda>h. sint (GetTypedIndex H h (Type_cast H typeValue)))
      (allocated_handles rs))"
    by (simp only:)
  from hs have l: "length (allocated_handles rs) = length (filter is_Allocate cs)"
    by simp
  from l dist eq d show ?thesis
    by (intro conjI)
qed

theorem Allocate_distinct_indices_witness:
  "allocated_slots (fst (run_calls (pair_handle 8) 1 (\<lambda>a. a) (\<lambda>x. x)
     [Call_Allocate (7::nat), Call_Allocate_ref (Some (9::nat)), Call_Get (1, 1), Call_Allocate 8]
     [Some 5, None])) = [1, 2, 3] \<and>
   distinct (map (\<lambda>h. sint (GetTypedIndex (pair_handle 8) h (Type_cast (pair_handle 8) 1)))
     [(1, 1), (2, 1), (3, 1)])"
proof -
  have c: "handle_contract (pair_handle 8) 1"
    by (simp add: pair_handle_contract)
  have b: "length [Some (5::nat), None] \<le> kIndexMax (pair_handle 8)"
    by (simp add: pair_handle_def)
  have run: "run_calls (pair_handle 8) 1 (\<lambda>a. a) (\<lambda>x. x)
      [Call_Allocate (7::nat), Call_Allocate_ref (Some (9::nat)), Call_Get (1, 1), Call_Allocate 8]
      [Some 5, None] =
      ([Reply_Allocate (Return_MakeHandle 1 (1, 1)), Reply_Allocate (Return_MakeHandle 2 (2, 1)),
        Reply_Get (Some 7), Reply_Allocate (Return_MakeHandle 3 (3, 1))],
       [Some 5, Some 7, Some 9, Some 8])"
    by (simp add: run_calls_Cons Allocate_scan Allocate_ref_scan first_empty_def Get_def
        pair_handle_def MakeHandle_def word_sle_eq word_sless_alt)
  have f: "list_all (\<lambda>c. \<not> is_Free c)
      [Call_Allocate (7::nat) :: (nat, nat, cint \<times> cint) call, Call_Allocate_ref (Some (9::nat)),
       Call_Get (1, 1), Call_Allocate 8]"
    by simp
  have s: "list_all2 (\<lambda>c r. is_Allocate c \<longrightarrow> successful_Allocate c r)
      [Call_Allocate (7::nat), Call_Allocate_ref (Some (9::nat)), Call_Get (1, 1), Call_Allocate 8]
      [Reply_Allocate (Return_MakeHandle 1 (1, 1)), Reply_Allocate (Return_MakeHandle 2 (2, 1)),
        Reply_Get (Some 7),
        Reply_Allocate (Return_MakeHandle 3 ((3, 1) :: cint \<times> cint)) :: (nat, cint \<times> cint) reply]"
    by simp
  from Allocate_distinct_indices [OF c b run f s] run show ?thesis
    by simp
qed

subsection \<open>C4: Get after Allocate and after Free\<close>

text \<open>
  C4. Let a successful \<^verbatim>\<open>Allocate\<close> (of either overload) choose slot \<open>i\<close>, install the
  pointer \<open>r\<close> and return the handle \<open>h\<close>. After any further calls among which there is
  no \<^verbatim>\<open>Free\<close> of \<open>h\<close> (or of a handle with the same typed index) and no \<^verbatim>\<open>Allocate\<close>
  that chooses slot \<open>i\<close>, \<^verbatim>\<open>Get(h)\<close> returns exactly \<open>r\<close>. And whatever calls \<open>pre\<close>
  follow the \<^verbatim>\<open>Allocate\<close> (calls of \<^verbatim>\<open>Free\<close> and reuse of any slot included): after a
  \<^verbatim>\<open>Free(h)\<close> made then, and any further calls \<open>post\<close> among which no \<^verbatim>\<open>Allocate\<close>
  chooses slot \<open>i\<close>, \<^verbatim>\<open>Get(h)\<close> returns the null pointer ("not found").
\<close>

theorem Get_after_Allocate_and_Free:
  assumes "handle_contract H typeValue" and "length m \<le> kIndexMax H"
    and "do_call H typeValue make_shared upcast c m = (Reply_Allocate (Return_MakeHandle i h), m1)"
  shows "(list_all (\<lambda>c'. \<not> frees_handle H typeValue h c') cs \<and>
          no_reuse H typeValue make_shared upcast i cs m1 \<longrightarrow>
            Get H typeValue h (snd (run_calls H typeValue make_shared upcast cs m1)) =
              installed make_shared upcast c) \<and>
         (no_reuse H typeValue make_shared upcast i post
            (Free H typeValue h (snd (run_calls H typeValue make_shared upcast pre m1))) \<longrightarrow>
            Get H typeValue h
              (snd (run_calls H typeValue make_shared upcast post
                (Free H typeValue h (snd (run_calls H typeValue make_shared upcast pre m1))))) =
              None)"
proof (intro conjI impI)
  from assms(3) have h: "h = MakeHandle H typeValue i" by (rule do_call_Return_MakeHandleD)
  from assms(3) have i: "i < length m1" by (rule do_call_Return_MakeHandle_slot)
  from assms(3) have r: "m1 ! i = installed make_shared upcast c"
    by (rule do_call_Return_MakeHandle_slot)
  from do_call_bound [OF assms(2), of typeValue make_shared upcast c] assms(3)
  have b1: "length m1 \<le> kIndexMax H" by simp
  with i have "i < kIndexMax H" by simp
  with assms(1) have decode: "GetTypedIndex H h (Type_cast H typeValue) = word_of_nat i"
    unfolding h by (rule decode_MakeHandle)
  {
    assume a: "list_all (\<lambda>c'. \<not> frees_handle H typeValue h c') cs \<and>
        no_reuse H typeValue make_shared upcast i cs m1"
    let ?m2 = "snd (run_calls H typeValue make_shared upcast cs m1)"
    from a have "i < length ?m2 \<and> ?m2 ! i = m1 ! i"
      by (intro run_calls_frame [OF i _ _ decode]) simp_all
    moreover from b1 have "length ?m2 \<le> kIndexMax H" by (rule run_calls_bound)
    ultimately show "Get H typeValue h ?m2 = installed make_shared upcast c"
      using r assms(1) unfolding h by (simp add: Get_MakeHandle)
  }
  {
    let ?m2 = "snd (run_calls H typeValue make_shared upcast pre m1)"
    let ?m3 = "Free H typeValue h ?m2"
    let ?m4 = "snd (run_calls H typeValue make_shared upcast post ?m3)"
    assume a: "no_reuse H typeValue make_shared upcast i post ?m3"
    have "length m1 \<le> length ?m2" by (rule run_calls_length)
    with i have i2: "i < length ?m2" by simp
    from b1 have b2: "length ?m2 \<le> kIndexMax H" by (rule run_calls_bound)
    from assms(1) b2 i2 have f: "?m3 = ?m2[i := None]"
      unfolding h by (rule Free_MakeHandle)
    with i2 have "i < length ?m3" and "?m3 ! i = None"
      by simp_all
    from run_calls_keeps_empty [OF this a] have "i < length ?m4" and "?m4 ! i = None"
      by simp_all
    moreover from b2 have "length ?m3 \<le> kIndexMax H"
      by (simp add: length_Free)
    then have "length ?m4 \<le> kIndexMax H" by (rule run_calls_bound)
    ultimately show "Get H typeValue h ?m4 = None"
      using assms(1) unfolding h by (simp add: Get_MakeHandle)
  }
qed

theorem Get_after_Allocate_and_Free_witness:
  "Get (pair_handle 8) 1 (1, 1) (snd (run_calls (pair_handle 8) 1 (\<lambda>a. a) (\<lambda>x. x)
      [Call_Free (0, 1), Call_Allocate (8::nat), Call_Get (1, 1)] [Some 5, Some 7])) = Some 7 \<and>
   Get (pair_handle 8) 1 (1, 1) (snd (run_calls (pair_handle 8) 1 (\<lambda>a. a) (\<lambda>x. x)
      [Call_Allocate (8::nat), Call_Get (1, 1)]
      (Free (pair_handle 8) 1 (1, 1) (snd (run_calls (pair_handle 8) 1 (\<lambda>a. a) (\<lambda>x. x)
         [Call_Free (0, 1)] [Some 5, Some 7]))))) = None"
proof -
  have c: "handle_contract (pair_handle 8) 1"
    by (simp add: pair_handle_contract)
  have b: "length [Some (5::nat)] \<le> kIndexMax (pair_handle 8)"
    by (simp add: pair_handle_def)
  have step: "do_call (pair_handle 8) 1 (\<lambda>a. a) (\<lambda>x. x) (Call_Allocate 7) [Some (5::nat)] =
      (Reply_Allocate (Return_MakeHandle 1 (1, 1)), [Some 5, Some 7])"
    by (simp add: Allocate_scan first_empty_def pair_handle_def MakeHandle_def)
  have nf: "list_all (\<lambda>c'. \<not> frees_handle (pair_handle 8) 1 (1, 1) c')
      [Call_Free (0, 1), Call_Allocate (8::nat), Call_Get (1, 1)]"
    by (simp add: pair_handle_def)
  have nr1: "no_reuse (pair_handle 8) 1 (\<lambda>a. a) (\<lambda>x. x) 1
      [Call_Free (0, 1), Call_Allocate (8::nat), Call_Get (1, 1)] [Some 5, Some 7]"
    by (simp add: no_reuse_Cons Allocate_scan first_empty_def Free_def Get_def pair_handle_def
        MakeHandle_def word_sle_eq word_sless_alt)
  have pre: "snd (run_calls (pair_handle 8) 1 (\<lambda>a. a) (\<lambda>x. x)
      [Call_Free (0, 1)] [Some (5::nat), Some 7]) = [None, Some 7]"
    by (simp add: run_calls_Cons Free_def pair_handle_def word_sle_eq word_sless_alt)
  have free: "Free (pair_handle 8) 1 (1, 1) [None, Some (7::nat)] = [None, None]"
    by (simp add: Free_def pair_handle_def word_sle_eq word_sless_alt)
  have nr2: "no_reuse (pair_handle 8) 1 (\<lambda>a. a) (\<lambda>x. x) 1
      [Call_Allocate (8::nat), Call_Get (1, 1)]
      (Free (pair_handle 8) 1 (1, 1) (snd (run_calls (pair_handle 8) 1 (\<lambda>a. a) (\<lambda>x. x)
         [Call_Free (0, 1)] [Some 5, Some 7])))"
    unfolding pre free
    by (simp add: no_reuse_Cons Allocate_scan first_empty_def Free_def Get_def pair_handle_def
        MakeHandle_def word_sle_eq word_sless_alt)
  note t = Get_after_Allocate_and_Free [OF c b step,
      where cs = "[Call_Free (0, 1), Call_Allocate (8::nat), Call_Get (1, 1)]"
        and pre = "[Call_Free (0, 1)]" and post = "[Call_Allocate (8::nat), Call_Get (1, 1)]"]
  note t1 = t [THEN conjunct1, THEN mp, OF conjI [OF nf nr1]]
  note t2 = t [THEN conjunct2, THEN mp, OF nr2]
  have "installed (\<lambda>a. a) (\<lambda>x. x)
      (Call_Allocate (7::nat) :: (nat, nat, cint \<times> cint) call) = Some 7"
    by simp
  with t1 have "Get (pair_handle 8) 1 (1, 1) (snd (run_calls (pair_handle 8) 1 (\<lambda>a. a) (\<lambda>x. x)
      [Call_Free (0, 1), Call_Allocate (8::nat), Call_Get (1, 1)] [Some 5, Some 7])) = Some 7"
    by (rule trans)
  then show ?thesis using t2 by (rule conjI)
qed

subsection \<open>C7: GetAll enumerates the occupied slots\<close>

text \<open>
  C7. \<^verbatim>\<open>GetAll\<close> produces exactly one handle for each occupied slot, in strictly
  ascending order of the index. On a table that starts empty, immediately after a run of
  calls with no \<^verbatim>\<open>Free\<close> in which each of the \<open>N\<close> \<^verbatim>\<open>Allocate\<close> calls is successful (it
  installs a resource and returns a handle for it), it yields exactly \<open>N\<close> handles: the
  handles that the \<^verbatim>\<open>Allocate\<close> calls returned, in that order, each of which \<^verbatim>\<open>Get\<close>
  resolves to the pointer installed by its call. The handle type decodes the handles it
  makes.
\<close>

theorem GetAll_enumerates:
  "GetAll H typeValue to_T m [] = map (\<lambda>k. to_T (MakeHandle H typeValue k)) (occupied_slots m) \<and>
   sorted_wrt (<) (occupied_slots m) \<and>
   set (occupied_slots m) = {k. k < length m \<and> m ! k \<noteq> None} \<and>
   (handle_contract H typeValue \<and>
    run_calls H typeValue make_shared upcast cs [] = (rs, m') \<and>
    list_all (\<lambda>c. \<not> is_Free c) cs \<and>
    list_all2 (\<lambda>c r. is_Allocate c \<longrightarrow> successful_Allocate c r) cs rs \<longrightarrow>
      GetAll H typeValue (\<lambda>h. h) m' [] = allocated_handles rs \<and>
      length (GetAll H typeValue (\<lambda>h. h) m' []) = length (filter is_Allocate cs) \<and>
      map (\<lambda>h. Get H typeValue h m') (GetAll H typeValue (\<lambda>h. h) m' []) =
        map (installed make_shared upcast) (filter is_Allocate cs))"
proof (intro conjI impI)
  show "GetAll H typeValue to_T m [] =
      map (\<lambda>k. to_T (MakeHandle H typeValue k)) (occupied_slots m)"
    by (simp add: GetAll_occupied)
  show "sorted_wrt (<) (occupied_slots m)"
    unfolding occupied_slots_def by (rule sorted_wrt_filter) (rule sorted_wrt_upt)
  show "set (occupied_slots m) = {k. k < length m \<and> m ! k \<noteq> None}"
    by (auto simp: occupied_slots_def)
next
  let ?as = "filter is_Allocate cs"
  assume a: "handle_contract H typeValue \<and>
    run_calls H typeValue make_shared upcast cs [] = (rs, m') \<and>
    list_all (\<lambda>c. \<not> is_Free c) cs \<and>
    list_all2 (\<lambda>c r. is_Allocate c \<longrightarrow> successful_Allocate c r) cs rs"
  then have contract: "handle_contract H typeValue"
    and run: "run_calls H typeValue make_shared upcast cs [] = (rs, m')"
    by simp_all
  from run run_calls_length_replies [of H typeValue make_shared upcast cs "[]"]
  have "length rs = length cs" by simp
  with a have inst: "list_all2 installs_or_reads cs rs"
    by (simp add: installs_or_reads_run_iff)
  from installing_run_full [OF run inst]
  have m': "m' = map (installed make_shared upcast) ?as"
    and slots: "allocated_slots rs = [0..<length ?as]"
    by simp_all
  from installing_run_handles [OF run inst] slots
  have hs: "allocated_handles rs = map (MakeHandle H typeValue) [0..<length ?as]"
    by simp
  from m' have len: "length m' = length ?as" by simp
  have "m' ! k \<noteq> None" if "k < length ?as" for k
  proof -
    from that slots have "k \<in> set (allocated_slots rs)" by simp
    from installing_run_slots [OF run inst this] show ?thesis by simp
  qed
  with len have occ: "occupied_slots m' = [0..<length ?as]"
    by (simp add: occupied_slots_def)
  with hs have all: "GetAll H typeValue (\<lambda>h. h) m' [] = allocated_handles rs"
    by (simp add: GetAll_occupied)
  from run_calls_bound [of "[]" H typeValue make_shared upcast cs] run
  have bound: "length m' \<le> kIndexMax H" by simp
  have "map (\<lambda>h. Get H typeValue h m') (map (MakeHandle H typeValue) [0..<length m']) =
      map (\<lambda>k. m' ! k) [0..<length m']"
    using contract bound by (simp add: Get_MakeHandle)
  also have "\<dots> = m'" by (rule map_nth)
  finally have get: "map (\<lambda>h. Get H typeValue h m') (GetAll H typeValue (\<lambda>h. h) m' []) =
      map (installed make_shared upcast) ?as"
    using all hs len m' by simp
  from all show "GetAll H typeValue (\<lambda>h. h) m' [] = allocated_handles rs" .
  from all hs show "length (GetAll H typeValue (\<lambda>h. h) m' []) = length ?as" by simp
  from get show "map (\<lambda>h. Get H typeValue h m') (GetAll H typeValue (\<lambda>h. h) m' []) =
        map (installed make_shared upcast) ?as" .
qed

theorem GetAll_enumerates_witness:
  "GetAll (pair_handle 8) 1 (\<lambda>h. h) [Some (7::nat), Some 9, Some 8] [] =
     [(0, 1), (1, 1), (2, 1)] \<and>
   map (\<lambda>h. Get (pair_handle 8) 1 h [Some (7::nat), Some 9, Some 8])
     (GetAll (pair_handle 8) 1 (\<lambda>h. h) [Some (7::nat), Some 9, Some 8] []) =
     [Some 7, Some 9, Some 8]"
proof -
  have c: "handle_contract (pair_handle 8) 1"
    by (simp add: pair_handle_contract)
  have run: "run_calls (pair_handle 8) 1 (\<lambda>a. a) (\<lambda>x. x)
      [Call_Allocate (7::nat), Call_Allocate_ref (Some (9::nat)), Call_Allocate 8] [] =
      ([Reply_Allocate (Return_MakeHandle 0 (0, 1)), Reply_Allocate (Return_MakeHandle 1 (1, 1)),
        Reply_Allocate (Return_MakeHandle 2 (2, 1))], [Some 7, Some 9, Some 8])"
    by (simp add: run_calls_Cons Allocate_scan Allocate_ref_scan first_empty_def pair_handle_def
        MakeHandle_def)
  have f: "list_all (\<lambda>c. \<not> is_Free c)
      [Call_Allocate (7::nat) :: (nat, nat, cint \<times> cint) call, Call_Allocate_ref (Some (9::nat)),
       Call_Allocate 8]"
    by simp
  have s: "list_all2 (\<lambda>c r. is_Allocate c \<longrightarrow> successful_Allocate c r)
      [Call_Allocate (7::nat), Call_Allocate_ref (Some (9::nat)), Call_Allocate 8]
      [Reply_Allocate (Return_MakeHandle 0 (0, 1)), Reply_Allocate (Return_MakeHandle 1 (1, 1)),
        Reply_Allocate (Return_MakeHandle 2 ((2, 1) :: cint \<times> cint)) :: (nat, cint \<times> cint) reply]"
    by simp
  note t = GetAll_enumerates [where H = "pair_handle 8" and typeValue = 1
      and make_shared = "\<lambda>a. a" and upcast = "\<lambda>x. x", THEN conjunct2, THEN conjunct2,
      THEN conjunct2, THEN mp, OF conjI [OF c conjI [OF run conjI [OF f s]]]]
  have "allocated_handles
      [Reply_Allocate (Return_MakeHandle 0 (0, 1)), Reply_Allocate (Return_MakeHandle 1 (1, 1)),
        Reply_Allocate (Return_MakeHandle 2 ((2, 1) :: cint \<times> cint)) :: (nat, cint \<times> cint) reply] =
      [(0, 1), (1, 1), (2, 1)]"
    by simp
  with t [THEN conjunct1]
  have 1: "GetAll (pair_handle 8) 1 (\<lambda>h. h) [Some (7::nat), Some 9, Some 8] [] =
     [(0, 1), (1, 1), (2, 1)]"
    by (rule trans)
  have "map (installed (\<lambda>a. a) (\<lambda>x. x)) (filter is_Allocate
      [Call_Allocate (7::nat) :: (nat, nat, cint \<times> cint) call, Call_Allocate_ref (Some (9::nat)),
       Call_Allocate 8]) = [Some 7, Some 9, Some 8]"
    by simp
  with t [THEN conjunct2, THEN conjunct2]
  have 2: "map (\<lambda>h. Get (pair_handle 8) 1 h [Some (7::nat), Some 9, Some 8])
     (GetAll (pair_handle 8) 1 (\<lambda>h. h) [Some (7::nat), Some 9, Some 8] []) =
     [Some 7, Some 9, Some 8]"
    by (rule trans)
  from 1 2 show ?thesis by (rule conjI)
qed

subsection \<open>C8: the by-reference overload\<close>

text \<open>
  C8. What holds of the by-reference overload as it is written: it returns as the
  constructing overload does on the same vector (the same slot by first fit, an appended
  slot under the same condition, \<^verbatim>\<open>return 0\<close> under the same condition), and the slot it
  chooses receives the caller's pointer, converted from a pointer to \<^verbatim>\<open>THandle\<close>, where
  the constructing overload stores the pointer to the new object. The pointer it takes is
  a \<^verbatim>\<open>std::shared_ptr<THandle>\<close>, not a pointer to the table's resource type
  \<^verbatim>\<open>TStruct\<close>.
\<close>

theorem Allocate_ref_same_policy:
  "fst (Allocate_ref H typeValue upcast p m) = fst (Allocate H typeValue make_shared args m) \<and>
   snd (Allocate H typeValue make_shared args m) =
     (case fst (Allocate H typeValue make_shared args m) of
        Return_MakeHandle i h \<Rightarrow>
          if i < length m then m[i := Some (make_shared args)] else m @ [Some (make_shared args)]
      | Return_0 h \<Rightarrow> m) \<and>
   snd (Allocate_ref H typeValue upcast p m) =
     (case fst (Allocate H typeValue make_shared args m) of
        Return_MakeHandle i h \<Rightarrow>
          if i < length m then m[i := map_option upcast p] else m @ [map_option upcast p]
      | Return_0 h \<Rightarrow> m) \<and>
   (fst (Allocate_ref H typeValue upcast p m) = Return_0 (THandle_of_int H 0) \<or>
    (\<exists>i. fst (Allocate_ref H typeValue upcast p m) = Return_MakeHandle i (MakeHandle H typeValue i)))"
  by (simp add: Allocate_scan Allocate_ref_scan)

theorem Allocate_ref_same_policy_witness:
  "Allocate_ref (pair_handle 2) 1 (\<lambda>h. sint (fst h)) (Some ((5, 1) :: cint \<times> cint))
     [Some 3, None] = (Return_MakeHandle 1 (1, 1), [Some 3, Some 5]) \<and>
   Allocate (pair_handle 2) 1 (\<lambda>a. a) (7::int) [Some 3, None] =
     (Return_MakeHandle 1 (1, 1), [Some 3, Some 7])"
proof -
  have "Allocate (pair_handle 2) 1 (\<lambda>a. a) (7::int) [Some 3, None] =
     (Return_MakeHandle 1 (1, 1), [Some 3, Some 7])"
    by (simp add: Allocate_scan first_empty_def pair_handle_def MakeHandle_def)
  with Allocate_ref_same_policy [of "pair_handle 2" 1 "\<lambda>h. sint (fst h)"
      "Some ((5, 1) :: cint \<times> cint)" "[Some 3, None]" "\<lambda>a. a" 7]
  show ?thesis by (simp add: prod_eq_iff)
qed

subsection \<open>C10: the by-reference overload with a null pointer\<close>

text \<open>
  C10. When the by-reference overload is called with a null pointer and a slot is
  available (some slot is empty, or the vector is below \<open>kIndexMax\<close> slots), it returns a
  handle for the slot it chose. That slot is null afterwards, as an empty slot is:
  \<^verbatim>\<open>Get\<close> on the handle returned gives the null pointer, \<^verbatim>\<open>GetAll\<close> does not list the
  slot, and the next \<^verbatim>\<open>Allocate\<close>, of either overload, chooses the same slot and returns
  the same handle.
\<close>

theorem Allocate_ref_null:
  assumes "handle_contract H typeValue" and "length m \<le> kIndexMax H"
  shows "(None \<in> set m \<or> length m < kIndexMax H \<longrightarrow>
            (\<exists>i m1. Allocate_ref H typeValue upcast None m =
               (Return_MakeHandle i (MakeHandle H typeValue i), m1))) \<and>
         (Allocate_ref H typeValue upcast None m = (Return_MakeHandle i h, m1) \<longrightarrow>
            i < length m1 \<and> m1 ! i = None \<and> Get H typeValue h m1 = None \<and>
            i \<notin> set (occupied_slots m1) \<and>
            Allocate H typeValue make_shared args m1 =
              (Return_MakeHandle i h, m1[i := Some (make_shared args)]) \<and>
            Allocate_ref H typeValue upcast' p' m1 =
              (Return_MakeHandle i h, m1[i := map_option upcast' p']))"
proof (intro conjI impI)
  assume "None \<in> set m \<or> length m < kIndexMax H"
  then have "first_empty m < length m \<or> length m < kIndexMax H"
    using first_empty_length_iff [of m] first_empty_le [of m] by auto
  then show "\<exists>i m1. Allocate_ref H typeValue upcast None m =
      (Return_MakeHandle i (MakeHandle H typeValue i), m1)"
    by (auto simp: Allocate_ref_scan)
next
  assume a: "Allocate_ref H typeValue upcast None m = (Return_MakeHandle i h, m1)"
  then have step: "do_call H typeValue undefined upcast (Call_Allocate_ref None) m =
      (Reply_Allocate (Return_MakeHandle i h), m1)"
    by simp
  note d = do_call_Return_MakeHandleD [OF step] do_call_Return_MakeHandle_slot [OF step]
  from d(5) show i: "i < length m1" .
  from d(6) show e: "m1 ! i = None" by simp
  from do_call_bound [OF assms(2), of typeValue undefined upcast "Call_Allocate_ref None"] step
  have b1: "length m1 \<le> kIndexMax H" by simp
  from assms(1) b1 i e show "Get H typeValue h m1 = None"
    unfolding d(2) by (simp add: Get_MakeHandle)
  from e show "i \<notin> set (occupied_slots m1)"
    by (simp add: occupied_slots_def)
  have "m1 ! k \<noteq> None" if "k < i" for k
  proof -
    from that d(1) have "m ! k \<noteq> None" by (simp add: first_empty_below)
    moreover from that d(4) have "k < length m" by auto
    ultimately show ?thesis using d(9) [of k] that by simp
  qed
  with i e have fe: "first_empty m1 = i" by (simp add: first_empty_eqI)
  with i d(2) show "Allocate H typeValue make_shared args m1 =
      (Return_MakeHandle i h, m1[i := Some (make_shared args)])"
    by (simp add: Allocate_scan)
  from fe i d(2) show "Allocate_ref H typeValue upcast' p' m1 =
      (Return_MakeHandle i h, m1[i := map_option upcast' p'])"
    by (simp add: Allocate_ref_scan)
qed

theorem Allocate_ref_null_witness:
  "Allocate_ref (pair_handle 8) 1 (\<lambda>x. x) None [Some (5::nat)] =
     (Return_MakeHandle 1 (1, 1), [Some 5, None]) \<and>
   Get (pair_handle 8) 1 (1, 1) [Some (5::nat), None] = None \<and>
   Allocate (pair_handle 8) 1 (\<lambda>a. a) (7::nat) [Some 5, None] =
     (Return_MakeHandle 1 (1, 1), [Some 5, Some 7])"
proof -
  have c: "handle_contract (pair_handle 8) 1"
    by (simp add: pair_handle_contract)
  have b: "length [Some (5::nat)] \<le> kIndexMax (pair_handle 8)"
    by (simp add: pair_handle_def)
  have step: "Allocate_ref (pair_handle 8) 1 (\<lambda>x. x) None [Some (5::nat)] =
     (Return_MakeHandle 1 (1, 1), [Some 5, None])"
    by (simp add: Allocate_ref_scan first_empty_def pair_handle_def MakeHandle_def)
  note t = Allocate_ref_null [OF c b, where make_shared = "\<lambda>a. a" and args = 7
      and upcast' = "\<lambda>x. x :: nat" and p' = None, THEN conjunct2, THEN mp, OF step]
  note t3 = t [THEN conjunct2, THEN conjunct2, THEN conjunct1]
  note t5 = t [THEN conjunct2, THEN conjunct2, THEN conjunct2, THEN conjunct2, THEN conjunct1]
  have "[Some (5::nat), None][1 := Some 7] = [Some 5, Some 7]"
    by simp
  with t5 have "Allocate (pair_handle 8) 1 (\<lambda>a. a) (7::nat) [Some 5, None] =
     (Return_MakeHandle 1 (1, 1), [Some 5, Some 7])"
    by (simp only:)
  with step t3 show ?thesis by (intro conjI)
qed

end
